theory Spec2Isabelle
  imports Complex_Main "HOL-Library.List_Lexorder" "HOL-Library.Product_Lexorder"
    "HOL-Library.Char_ord"
begin

section \<open>Python values and errors\<close>

text \<open>
  The development embeds the numeric core of \<^verbatim>\<open>hatchet/utils/plot_cn_1d2d.py\<close>.
  Every exception the source can raise is a value of \<open>py_error\<close>; a function that can
  raise returns \<open>py_error + 'a\<close> with \<open>Inl\<close> for the exception. Python floats are
  idealised as reals; the non-finite results numpy produces on a division by zero or on
  the mean of an empty selection (nan, inf) are the extra value \<open>NonFinite\<close>.
\<close>

datatype py_error =
    ValueError string
  | KeyError
  | AssertionError
  | IndexError
  | AttributeError
  | TypeError

datatype npfloat = Fin real | NonFinite

definition np_div :: "real \<Rightarrow> real \<Rightarrow> npfloat" where
  "np_div x y = (if y = 0 then NonFinite else Fin (x / y))"

text \<open>Running a list of fallible computations in order, stopping at the first exception.\<close>

fun sequence_err :: "(py_error + 'a) list \<Rightarrow> py_error + 'a list" where
  "sequence_err [] = Inr []"
| "sequence_err (r # rs) =
     (case r of
        Inl e \<Rightarrow> Inl e
      | Inr v \<Rightarrow> (case sequence_err rs of Inl e \<Rightarrow> Inl e | Inr vs \<Rightarrow> Inr (v # vs)))"

text \<open>Indexing a tuple or list: \<^verbatim>\<open>x[i]\<close> raises IndexError out of range.\<close>

definition tuple_get :: "'a list \<Rightarrow> nat \<Rightarrow> py_error + 'a" where
  "tuple_get x i = (if i < length x then Inr (x ! i) else Inl IndexError)"

section \<open>The state codec: \<^verbatim>\<open>str2state\<close> and \<^verbatim>\<open>cn2total\<close>\<close>

text \<open>
  \<^verbatim>\<open>s.split('|')\<close> cuts at every separator and keeps empty pieces; it never returns an
  empty list (the last case of the inner \<open>case\<close> is unreachable).
\<close>

fun split_on :: "char \<Rightarrow> string \<Rightarrow> string list" where
  "split_on sep [] = [[]]"
| "split_on sep (c # cs) =
     (if c = sep then [] # split_on sep cs
      else (case split_on sep cs of [] \<Rightarrow> [[c]] | w # ws \<Rightarrow> (c # w) # ws))"

text \<open>
  \<^verbatim>\<open>int(s)\<close> on a string, base 10; a character is its code point, below 256.
  Surrounding whitespace is stripped, one sign is allowed, and the digits may be grouped
  by single underscores. Anything else raises ValueError. The whitespace that
  \<^verbatim>\<open>int\<close> strips is the space, the five ASCII controls 0x09..0x0D, and the two
  whitespace code points above 127, 0x85 and 0xA0, which \<^verbatim>\<open>int\<close> turns into spaces
  first. The separators 0x1C..0x1F are not stripped: \<^verbatim>\<open>int('\x1c5')\<close> raises ValueError.
\<close>

definition is_space :: "char \<Rightarrow> bool" where
  "is_space c \<longleftrightarrow> c \<in> set [CHR '' '', CHR 0x09, CHR 0x0A, CHR 0x0B, CHR 0x0C, CHR 0x0D,
                              CHR 0x85, CHR 0xA0]"

definition strip :: "string \<Rightarrow> string" where
  "strip s = rev (dropWhile is_space (rev (dropWhile is_space s)))"

definition is_digit :: "char \<Rightarrow> bool" where
  "is_digit c \<longleftrightarrow> (48::nat) \<le> of_char c \<and> of_char c \<le> (57::nat)"

definition digit_val :: "char \<Rightarrow> nat" where
  "digit_val c = of_char c - 48"

definition digits_val :: "string \<Rightarrow> nat" where
  "digits_val ds = foldl (\<lambda>a c. 10 * a + digit_val c) 0 ds"

definition parse_digits :: "string \<Rightarrow> nat option" where
  "parse_digits s =
     (let groups = split_on (CHR ''_'') s in
      if list_all (\<lambda>g. g \<noteq> [] \<and> list_all is_digit g) groups
      then Some (digits_val (concat groups)) else None)"

definition py_int :: "string \<Rightarrow> py_error + int" where
  "py_int s =
     (let t = strip s;
          (neg, body) = (case t of
                           [] \<Rightarrow> (False, [])
                         | c # cs \<Rightarrow> if c = CHR ''-'' then (True, cs)
                                    else if c = CHR ''+'' then (False, cs)
                                    else (False, t))
      in case parse_digits body of
           None \<Rightarrow> Inl (ValueError ''invalid literal for int() with base 10'')
         | Some n \<Rightarrow> Inr (if neg then - int n else int n))"

text \<open>
  \<^verbatim>\<open>
  str2state = lambda cn: tuple([int(a) for a in cn.split('|')])

  def cn2total(s):
      tkns = s.split('|')
      assert len(tkns) == 2
      return int(tkns[0]) + int(tkns[1])
  \<close>
\<close>

definition str2state :: "string \<Rightarrow> py_error + int list" where
  "str2state cn = sequence_err (map py_int (split_on (CHR ''|'') cn))"

definition cn2total :: "string \<Rightarrow> py_error + int" where
  "cn2total s =
     (let tkns = split_on (CHR ''|'') s in
      if length tkns \<noteq> 2 then Inl AssertionError
      else case py_int (tkns ! 0) of
             Inl e \<Rightarrow> Inl e
           | Inr a \<Rightarrow> (case py_int (tkns ! 1) of Inl e \<Rightarrow> Inl e | Inr b \<Rightarrow> Inr (a + b)))"

text \<open>\<^verbatim>\<open>str(n)\<close> of a non-negative integer, as the f-strings of the source format it.\<close>

fun py_str :: "nat \<Rightarrow> string" where
  "py_str n = (if n < 10 then [char_of (48 + n)] else py_str (n div 10) @ [char_of (48 + n mod 10)])"

declare py_str.simps [simp del]

section \<open>Expected values of a state vector: \<^verbatim>\<open>cn2evs\<close>\<close>

text \<open>
  \<^verbatim>\<open>
  def cn2evs(cns, props):
      assert len(cns) == len(props)
      A = np.array([x[0] for x in cns])
      B = np.array([x[1] for x in cns])
      return np.sum((A + B) * props), np.sum(B * props) / np.sum((A+B) * props)
  \<close>
  A state is the tuple of integers that \<^verbatim>\<open>str2state\<close> returns, so it is an \<open>int list\<close>.
\<close>

definition cn2evs :: "int list list \<Rightarrow> real list \<Rightarrow> py_error + (real \<times> npfloat)" where
  "cn2evs cns props =
     (if length cns \<noteq> length props then Inl AssertionError
      else case sequence_err (map (\<lambda>x. tuple_get x 0) cns) of
        Inl e \<Rightarrow> Inl e
      | Inr A \<Rightarrow>
         (case sequence_err (map (\<lambda>x. tuple_get x 1) cns) of
            Inl e \<Rightarrow> Inl e
          | Inr B \<Rightarrow>
             (let tot = sum_list (map (\<lambda>((a, b), p). real_of_int (a + b) * p) (zip (zip A B) props));
                  bsum = sum_list (map (\<lambda>(b, p). real_of_int b * p) (zip B props))
              in Inr (tot, np_div bsum tot))))"

section \<open>Colour arguments: the post-step of \<^verbatim>\<open>plot_clusters\<close>\<close>

text \<open>
  \<^verbatim>\<open>
  n_states = len(mapping)
  if n_states <= 20:
      cmap = plt.get_cmap('tab20')
      mapping = {k:v%20 for k,v in mapping.items()}
  else:
      ... cmap = mcolors.LinearSegmentedColormap.from_list('my_colormap', colors)
      mapping = {k:v%40 / n_states for k,v in mapping.items()}
  \<close>
  A dict is an association list in insertion order with distinct keys. The value handed
  to the colormap is an integer palette index in the first branch and a float position
  in the second. Python's \<^verbatim>\<open>%\<close> on a positive modulus is HOL's \<open>mod\<close> on \<open>int\<close>.
\<close>

datatype cmap = Tab20 | Combined40

datatype cmap_arg = PaletteIndex int | Position real

definition color_mapping :: "('k \<times> int) list \<Rightarrow> cmap \<times> ('k \<times> cmap_arg) list" where
  "color_mapping mapping =
     (let n_states = length mapping in
      if n_states \<le> 20
      then (Tab20, map (\<lambda>(k, v). (k, PaletteIndex (v mod 20))) mapping)
      else (Combined40,
            map (\<lambda>(k, v). (k, Position (real_of_int (v mod 40) / real n_states))) mapping))"

section \<open>The state indexer: \<^verbatim>\<open>reindex\<close>\<close>

text \<open>
  \<^verbatim>\<open>
  def reindex(labels):
      old2new = {}
      j = 1
      for i, _ in Counter(labels).most_common():
          old2new[i] = j
          j += 1
      old2newf = lambda x: old2new[x]
      return [old2newf(a) for a in labels], old2new
  \<close>
  \<^verbatim>\<open>Counter\<close> is a dict, so its items are in order of first insertion.
  \<^verbatim>\<open>most_common()\<close> is \<^verbatim>\<open>sorted(self.items(), key=itemgetter(1), reverse=True)\<close>:
  a stable sort by descending count (Python keeps the original order of equal elements
  also under \<^verbatim>\<open>reverse=True\<close>), which is the stable insertion sort \<open>sort_key\<close> on
  the negated count.
\<close>

fun counter_add :: "'a \<Rightarrow> ('a \<times> nat) list \<Rightarrow> ('a \<times> nat) list" where
  "counter_add x [] = [(x, 1)]"
| "counter_add x ((k, c) # kcs) =
     (if k = x then (k, Suc c) # kcs else (k, c) # counter_add x kcs)"

definition Counter :: "'a list \<Rightarrow> ('a \<times> nat) list" where
  "Counter labels = fold counter_add labels []"

definition most_common :: "('a \<times> nat) list \<Rightarrow> ('a \<times> nat) list" where
  "most_common items = sort_key (\<lambda>(k, c). - int c) items"

text \<open>\<^verbatim>\<open>d[k] = v\<close> overwrites in place or appends a new key; \<^verbatim>\<open>d[k]\<close> raises KeyError.\<close>

definition dict_set :: "('k \<times> 'v) list \<Rightarrow> 'k \<Rightarrow> 'v \<Rightarrow> ('k \<times> 'v) list" where
  "dict_set d k v =
     (if k \<in> set (map fst d) then map (\<lambda>(k', v'). if k' = k then (k', v) else (k', v')) d
      else d @ [(k, v)])"

definition dict_get :: "('k \<times> 'v) list \<Rightarrow> 'k \<Rightarrow> py_error + 'v" where
  "dict_get d k = (case map_of d k of None \<Rightarrow> Inl KeyError | Some v \<Rightarrow> Inr v)"

fun reindex_loop :: "('a \<times> nat) list \<Rightarrow> ('a \<times> int) list \<Rightarrow> int \<Rightarrow> ('a \<times> int) list" where
  "reindex_loop [] old2new j = old2new"
| "reindex_loop ((i, _) # rest) old2new j = reindex_loop rest (dict_set old2new i j) (j + 1)"

definition reindex :: "'a list \<Rightarrow> py_error + (int list \<times> ('a \<times> int) list)" where
  "reindex labels =
     (let old2new = reindex_loop (most_common (Counter labels)) [] 1 in
      case sequence_err (map (dict_get old2new) labels) of
        Inl e \<Rightarrow> Inl e
      | Inr new \<Rightarrow> Inr (new, old2new))"

text \<open>The position of the first occurrence of a key in the input sequence.\<close>

definition first_index :: "'a list \<Rightarrow> 'a \<Rightarrow> nat" where
  "first_index xs a = length (takeWhile (\<lambda>x. x \<noteq> a) xs)"

section \<open>Tables\<close>

text \<open>
  A pandas DataFrame is its list of column names and its rows, every row holding one cell
  per column (pandas cannot build a ragged table, so \<open>r ! j\<close> is read only below the
  number of columns). A cell is text, an integer or a float: every cell holds a value, a
  table with missing values is outside the embedding. Columns are reached by name
  (\<^verbatim>\<open>bbc['RD']\<close>, KeyError when absent) and by position (\<^verbatim>\<open>bbc.iloc[:, j]\<close>, IndexError
  out of range), as the source does.
\<close>

datatype cell = CStr string | CInt int | CFloat real

record dataframe =
  columns :: "string list"
  rows :: "cell list list"

definition col_index :: "dataframe \<Rightarrow> string \<Rightarrow> nat option" where
  "col_index df name =
     (if name \<in> set (columns df) then Some (first_index (columns df) name) else None)"

definition column_at :: "dataframe \<Rightarrow> nat \<Rightarrow> cell list" where
  "column_at df j = map (\<lambda>r. r ! j) (rows df)"

definition get_col :: "dataframe \<Rightarrow> string \<Rightarrow> py_error + cell list" where
  "get_col df name =
     (case col_index df name of None \<Rightarrow> Inl KeyError | Some j \<Rightarrow> Inr (column_at df j))"

definition iloc_col :: "dataframe \<Rightarrow> nat \<Rightarrow> py_error + cell list" where
  "iloc_col df j = (if j < length (columns df) then Inr (column_at df j) else Inl IndexError)"

definition set_col :: "dataframe \<Rightarrow> nat \<Rightarrow> cell list \<Rightarrow> dataframe" where
  "set_col df j vs = df\<lparr>rows := map (\<lambda>(r, v). r[j := v]) (zip (rows df) vs)\<rparr>"

text \<open>
  \<^verbatim>\<open>str(a)\<close> of a cell. The text Python prints for a float is not part of the embedding:
  it is the parameter \<open>float_repr\<close> of the functions that convert chromosome names.
\<close>

definition int_str :: "int \<Rightarrow> string" where
  "int_str i = (if i < 0 then CHR ''-'' # py_str (nat (- i)) else py_str (nat i))"

definition cell_str :: "(real \<Rightarrow> string) \<Rightarrow> cell \<Rightarrow> string" where
  "cell_str float_repr c =
     (case c of CStr s \<Rightarrow> s | CInt i \<Rightarrow> int_str i | CFloat x \<Rightarrow> float_repr x)"

text \<open>
  A cell used as a number (\<^verbatim>\<open>END\<close>, \<^verbatim>\<open>RD\<close>, the proportions) and a cell handed to the
  state codec (\<^verbatim>\<open>cn2total\<close>, \<^verbatim>\<open>str2state\<close>). Text used as a number stops the model with
  TypeError; a number handed to the codec stops it with AttributeError, which is what
  \<^verbatim>\<open>s.split\<close> raises on a number. Grouping and dictionary lookups take cells of any kind.
\<close>

definition cell_num :: "cell \<Rightarrow> py_error + real" where
  "cell_num c = (case c of CStr s \<Rightarrow> Inl TypeError | CInt i \<Rightarrow> Inr (real_of_int i) | CFloat x \<Rightarrow> Inr x)"

definition cell_text :: "cell \<Rightarrow> py_error + string" where
  "cell_text c = (case c of CStr s \<Rightarrow> Inr s | CInt i \<Rightarrow> Inl AttributeError | CFloat x \<Rightarrow> Inl AttributeError)"

definition startswith :: "string \<Rightarrow> string \<Rightarrow> bool" where
  "startswith s p \<longleftrightarrow> take (length p) s = p"

text \<open>\<^verbatim>\<open>Series.unique()\<close>: the distinct values in order of first appearance.\<close>

definition unique :: "'a list \<Rightarrow> 'a list" where
  "unique xs = rev (remdups (rev xs))"

section \<open>The entry point \<^verbatim>\<open>generate_1D2D_plots\<close>, up to the state-index mapping\<close>

text \<open>
  \<^verbatim>\<open>
  if '#CHR' not in bbc:
      raise ValueError('Input table is malformed (missing #CHR column)')
  using_chr = [str(a).startswith('chr') for a in bbc['#CHR'].unique()]
  if any(using_chr):
      if not all(using_chr):
          raise ValueError(sp.error("Some chromosomes use 'chr' notation while others do not."))
      use_chr = True
  else:
      use_chr = False
  if not use_chr:
      bbc = bbc.copy()
      bbc['#CHR'] = 'chr' + bbc['#CHR'].astype('str')
  \<close>
  The message of the second error is kept without its inner quotation marks.
\<close>

definition normalize_chr :: "(real \<Rightarrow> string) \<Rightarrow> dataframe \<Rightarrow> py_error + dataframe" where
  "normalize_chr float_repr bbc =
     (case col_index bbc ''#CHR'' of
        None \<Rightarrow> Inl (ValueError ''Input table is malformed (missing #CHR column)'')
      | Some j \<Rightarrow>
         (let using_chr = map (\<lambda>a. startswith (cell_str float_repr a) ''chr'')
                              (unique (column_at bbc j)) in
          if list_ex id using_chr
          then (if \<not> list_all id using_chr
                then Inl (ValueError ''Some chromosomes use chr notation while others do not.'')
                else Inr bbc)
          else Inr (set_col bbc j
                      (map (\<lambda>a. CStr (''chr'' @ cell_str float_repr a)) (column_at bbc j)))))"

text \<open>
  \<^verbatim>\<open>
  chrlengths = {str(c):df.END.max() for c, df in bbc.groupby('#CHR')}
  chr_ends = [0]
  for i in range(22):
      chr_ends.append(chr_ends[-1] + chrlengths[f'chr{i + 1}'])
  \<close>
  \<^verbatim>\<open>groupby\<close> yields one group per distinct key, in sorted key order; the groups are
  taken by the text of the chromosome cell (after the step above every such cell is
  text). A group is never empty, so the first equation of \<open>max_list\<close> is not reached.
\<close>

fun max_list :: "real list \<Rightarrow> real" where
  "max_list [] = 0"
| "max_list (x # xs) = fold max xs x"

definition chrlengths :: "(real \<Rightarrow> string) \<Rightarrow> dataframe \<Rightarrow> py_error + (string \<times> real) list" where
  "chrlengths float_repr bbc =
     (case col_index bbc ''#CHR'' of
        None \<Rightarrow> Inl KeyError
      | Some j \<Rightarrow>
          sequence_err
            (map (\<lambda>c. case col_index bbc ''END'' of
                         None \<Rightarrow> Inl AttributeError
                       | Some e \<Rightarrow>
                          (case sequence_err
                                  (map (\<lambda>r. cell_num (r ! e))
                                       (filter (\<lambda>r. cell_str float_repr (r ! j) = c) (rows bbc))) of
                             Inl err \<Rightarrow> Inl err
                           | Inr ends \<Rightarrow> Inr (c, max_list ends)))
                 (sort (remdups (map (cell_str float_repr) (column_at bbc j))))))"

fun chr_ends_loop :: "(string \<times> real) list \<Rightarrow> nat list \<Rightarrow> real list \<Rightarrow> py_error + real list" where
  "chr_ends_loop cl [] chr_ends = Inr chr_ends"
| "chr_ends_loop cl (i # is) chr_ends =
     (case dict_get cl (''chr'' @ py_str (i + 1)) of
        Inl e \<Rightarrow> Inl e
      | Inr len \<Rightarrow> chr_ends_loop cl is (chr_ends @ [last chr_ends + len]))"

text \<open>
  \<^verbatim>\<open>
  n_clones = max([i for i in range(5) if f'cn_clone{i}' in bbc.columns])
  _, mapping = reindex([k for k, _ in bbc.groupby([f'cn_clone{i + 1}' for i in range(n_clones)])])
  \<close>
  \<^verbatim>\<open>max\<close> of an empty list raises ValueError, and so does \<^verbatim>\<open>groupby\<close> of an empty list
  of columns. Grouping by a list of columns groups the rows by the values of these
  columns, whatever they are, and yields each distinct combination once, in sorted order:
  combinations compare column by column, numbers before text, numbers by value and text
  by code point. As a dictionary key the integer 1 and the float 1.0 are the same value,
  so \<open>key_cell\<close> reads an integer as a float.

  What the iteration yields as key for a list of one column depends on the release of
  pandas: before 2.0 the bare value, from 2.0 on a tuple of length 1. For two or more
  columns it is a tuple in every release. The source always passes a list and fixes no
  release, so the release is the parameter \<open>pandas\<close> of the embedding.
\<close>

datatype pandas = Pandas1 | Pandas2

datatype key = Bare cell | Tuple "cell list"

definition key_cell :: "cell \<Rightarrow> cell" where
  "key_cell c = (case c of CStr s \<Rightarrow> CStr s | CInt i \<Rightarrow> CFloat (real_of_int i) | CFloat x \<Rightarrow> CFloat x)"

definition sort_code :: "cell \<Rightarrow> bool \<times> real \<times> string" where
  "sort_code c =
     (case c of
        CStr s \<Rightarrow> (True, 0, s)
      | CInt i \<Rightarrow> (False, real_of_int i, [])
      | CFloat x \<Rightarrow> (False, x, []))"

definition n_clones_of :: "dataframe \<Rightarrow> py_error + nat" where
  "n_clones_of bbc =
     (case filter (\<lambda>i. (''cn_clone'' @ py_str i) \<in> set (columns bbc)) [0..<5] of
        [] \<Rightarrow> Inl (ValueError ''max() arg is an empty sequence'')
      | i # is \<Rightarrow> Inr (fold max is i))"

definition state_columns :: "dataframe \<Rightarrow> nat \<Rightarrow> py_error + nat list" where
  "state_columns bbc n_clones =
     sequence_err (map (\<lambda>i. case col_index bbc (''cn_clone'' @ py_str (i + 1)) of
                               None \<Rightarrow> Inl KeyError | Some j \<Rightarrow> Inr j) [0..<n_clones])"

definition row_states :: "nat list \<Rightarrow> cell list \<Rightarrow> cell list" where
  "row_states js r = map (\<lambda>j. key_cell (r ! j)) js"

definition mk_key :: "pandas \<Rightarrow> nat \<Rightarrow> cell list \<Rightarrow> key" where
  "mk_key pv n_clones t = (if n_clones = 1 \<and> pv = Pandas1 then Bare (t ! 0) else Tuple t)"

definition state_keys :: "pandas \<Rightarrow> dataframe \<Rightarrow> nat \<Rightarrow> py_error + key list" where
  "state_keys pv bbc n_clones =
     (if n_clones = 0 then Inl (ValueError ''No group keys passed!'')
      else case state_columns bbc n_clones of
        Inl e \<Rightarrow> Inl e
      | Inr js \<Rightarrow>
          Inr (map (mk_key pv n_clones)
                 (sort_key (map sort_code) (remdups (map (row_states js) (rows bbc))))))"

definition generate_1D2D_plots ::
  "pandas \<Rightarrow> (real \<Rightarrow> string) \<Rightarrow> dataframe \<Rightarrow>
     py_error + (dataframe \<times> real list \<times> nat \<times> (key \<times> int) list)" where
  "generate_1D2D_plots pv float_repr bbc0 =
     (case normalize_chr float_repr bbc0 of
        Inl e \<Rightarrow> Inl e
      | Inr bbc \<Rightarrow>
     (case chrlengths float_repr bbc of
        Inl e \<Rightarrow> Inl e
      | Inr cl \<Rightarrow>
     (case chr_ends_loop cl [0..<22] [0] of
        Inl e \<Rightarrow> Inl e
      | Inr chr_ends \<Rightarrow>
     (case n_clones_of bbc of
        Inl e \<Rightarrow> Inl e
      | Inr n_clones \<Rightarrow>
     (case state_keys pv bbc n_clones of
        Inl e \<Rightarrow> Inl e
      | Inr keys \<Rightarrow>
     (case reindex keys of
        Inl e \<Rightarrow> Inl e
      | Inr (new, mapping) \<Rightarrow> Inr (bbc, chr_ends, n_clones, mapping)))))))"

text \<open>The order the indexer is to rank by: more occurrences first, then earlier first occurrence.\<close>

definition prevalence_before :: "'a list \<Rightarrow> 'a \<Rightarrow> 'a \<Rightarrow> bool" where
  "prevalence_before labels a b \<longleftrightarrow>
     count_list labels b < count_list labels a \<or>
     (count_list labels a = count_list labels b \<and> first_index labels a < first_index labels b)"


text \<open>Every row of a table has one cell per column.\<close>

definition wf_frame :: "dataframe \<Rightarrow> bool" where
  "wf_frame df \<longleftrightarrow> (\<forall>r\<in>set (rows df). length r = length (columns df))"


text \<open>Two small tables: one without the prefix, one with chromosome 1 only.\<close>

definition bbc_two :: dataframe where
  "bbc_two = \<lparr>columns = [''#CHR'', ''START'', ''END''],
              rows = [[CInt 1, CInt 0, CInt 10], [CInt 2, CInt 0, CInt 20]]\<rparr>"

definition bbc_chr1 :: dataframe where
  "bbc_chr1 = \<lparr>columns = [''#CHR'', ''START'', ''END''],
               rows = [[CStr ''chr1'', CInt 0, CInt 10]]\<rparr>"


text \<open>
  A table in the layout of HATCHet's \<^verbatim>\<open>best.bbc.ucn\<close> files with one tumor clone: one
  bin on each of the chromosomes 1..22, sample \<^verbatim>\<open>S1\<close>, proportions 0.5 and 0.5. The
  bin of chromosome 1 has clone state \<^verbatim>\<open>1|1\<close>, the other 21 bins have \<^verbatim>\<open>2|2\<close>.
\<close>

definition bbc_columns1 :: "string list" where
  "bbc_columns1 = [''#CHR'', ''START'', ''END'', ''SAMPLE'', ''RD'', ''#SNPS'', ''COV'', ''ALPHA'',
     ''BETA'', ''BAF'', ''CLUSTER'', ''cn_normal'', ''u_normal'', ''cn_clone1'', ''u_clone1'']"

definition bbc_row1 :: "nat \<Rightarrow> string \<Rightarrow> cell list" where
  "bbc_row1 i cn = [CInt (int i), CInt 0, CInt 1000, CStr ''S1'', CFloat 1, CInt 10, CFloat 30,
     CFloat 5, CFloat 5, CFloat (1/2), CInt 0, CStr ''1|1'', CFloat (1/2), CStr cn, CFloat (1/2)]"

definition bbc_prevalence :: dataframe where
  "bbc_prevalence =
     \<lparr>columns = bbc_columns1,
      rows = bbc_row1 1 ''1|1'' # map (\<lambda>i. bbc_row1 i ''2|2'') [2..<23]\<rparr>"


section \<open>The gamma estimate: \<^verbatim>\<open>compute_gamma\<close>\<close>

text \<open>
  \<^verbatim>\<open>
  def compute_gamma(bbc):
      bbc = bbc.reset_index(drop = True)
      n_clones = int((len(bbc.columns) - 13) / 2)
      bbc['fractional_cn'] = sum([bbc.iloc[:, 11 + 2*i].map(cn2total) * bbc.iloc[:, 12 + 2*i]
                                  for i in range(n_clones + 1)])
      largest_clone = np.argmax([bbc['u_clone{}'.format(i + 1)][0] for i in range(n_clones)])
      dominant_cns = Counter(bbc['cn_clone{}'.format(largest_clone + 1)])
      balanced_options = set(['1|1', '2|2', '3|3', '4|4'])
      largest_balanced = max(balanced_options, key = lambda x: dominant_cns[x])
      balanced_idx = [i for i in range(len(bbc)) if
                      all([bbc['cn_clone{}'.format(j + 1)][i] == largest_balanced for j in range(n_clones)])
                      and bbc.loc[i, 'RD'] > 0]
      if len(balanced_idx) == 0:
          balanced_options.remove(largest_balanced)
          largest_balanced = max(balanced_options, key = lambda x: dominant_cns[x])
          balanced_idx = [... the same comprehension ...]
      return n_clones, np.mean(bbc.iloc[balanced_idx].fractional_cn / bbc.iloc[balanced_idx].RD)
  \<close>
  Floats are real numbers; \<^verbatim>\<open>inf\<close> and \<^verbatim>\<open>nan\<close> are the one value \<open>NonFinite\<close>.
  \<^verbatim>\<open>np.mean\<close> of an empty selection is \<^verbatim>\<open>nan\<close> (numpy warns, it does not raise).
  \<^verbatim>\<open>int(x)\<close> truncates toward zero. \<^verbatim>\<open>max(xs, key = f)\<close> returns the first maximal
  element in iteration order. The order in which Python iterates the set
  \<^verbatim>\<open>balanced_options\<close> depends on the string hashes of the run, so it is the parameter
  \<open>balanced_options\<close> of the embedding; removing an element keeps the order of the others.
  The column \<^verbatim>\<open>fractional_cn\<close> is a list beside the table: nothing reads it by position,
  and \<^verbatim>\<open>reset_index\<close> changes nothing in a table that is a list of rows.
  The list of products is built for every clone before it is summed: text in a column of
  proportions multiplies without error and raises TypeError in the sum, after every state
  has gone through \<^verbatim>\<open>cn2total\<close>. The proportions that \<^verbatim>\<open>np.argmax\<close> compares are read as
  numbers.
\<close>

definition np_mean :: "npfloat list \<Rightarrow> npfloat" where
  "np_mean xs =
     (if xs = [] \<or> NonFinite \<in> set xs then NonFinite
      else Fin (sum_list (map (\<lambda>x. case x of Fin r \<Rightarrow> r | NonFinite \<Rightarrow> 0) xs) / real (length xs)))"

definition n_clones_gamma :: "dataframe \<Rightarrow> int" where
  "n_clones_gamma bbc =
     (let d = int (length (columns bbc)) - 13 in if d < 0 then - ((- d) div 2) else d div 2)"

definition fractional_factors :: "dataframe \<Rightarrow> nat \<Rightarrow> py_error + (int list \<times> cell list)" where
  "fractional_factors bbc i =
     (case iloc_col bbc (11 + 2 * i) of
        Inl e \<Rightarrow> Inl e
      | Inr cns \<Rightarrow>
     (case sequence_err (map (\<lambda>c. case cell_text c of Inl e \<Rightarrow> Inl e | Inr s \<Rightarrow> cn2total s) cns) of
        Inl e \<Rightarrow> Inl e
      | Inr totals \<Rightarrow>
     (case iloc_col bbc (12 + 2 * i) of
        Inl e \<Rightarrow> Inl e
      | Inr us \<Rightarrow> Inr (totals, us))))"

definition fractional_term :: "int list \<times> cell list \<Rightarrow> py_error + real list" where
  "fractional_term f =
     (case sequence_err (map cell_num (snd f)) of
        Inl e \<Rightarrow> Inl e
      | Inr props \<Rightarrow> Inr (map (\<lambda>(t, u). real_of_int t * u) (zip (fst f) props)))"

definition fractional_cn :: "dataframe \<Rightarrow> int \<Rightarrow> py_error + real list" where
  "fractional_cn bbc n_clones =
     (case sequence_err (map (fractional_factors bbc) [0..<nat (n_clones + 1)]) of
        Inl e \<Rightarrow> Inl e
      | Inr fs \<Rightarrow>
     (case sequence_err (map fractional_term fs) of
        Inl e \<Rightarrow> Inl e
      | Inr terms \<Rightarrow>
          Inr (fold (\<lambda>t acc. map (\<lambda>(a, b). a + b) (zip acc t)) terms
                 (replicate (length (rows bbc)) 0))))"

definition first_cell :: "dataframe \<Rightarrow> string \<Rightarrow> py_error + cell" where
  "first_cell bbc name =
     (case get_col bbc name of
        Inl e \<Rightarrow> Inl e
      | Inr cs \<Rightarrow> (case cs of [] \<Rightarrow> Inl KeyError | c # _ \<Rightarrow> Inr c))"

definition np_argmax :: "real list \<Rightarrow> py_error + nat" where
  "np_argmax xs =
     (if xs = [] then Inl (ValueError ''attempt to get argmax of an empty sequence'')
      else Inr (first_index xs (max_list xs)))"

definition largest_clone :: "dataframe \<Rightarrow> int \<Rightarrow> py_error + nat" where
  "largest_clone bbc n_clones =
     (case sequence_err (map (\<lambda>i. first_cell bbc (''u_clone'' @ py_str (i + 1))) [0..<nat n_clones]) of
        Inl e \<Rightarrow> Inl e
      | Inr cs \<Rightarrow> (case sequence_err (map cell_num cs) of Inl e \<Rightarrow> Inl e | Inr us \<Rightarrow> np_argmax us))"

fun max_key_loop :: "('a \<Rightarrow> nat) \<Rightarrow> 'a \<Rightarrow> 'a list \<Rightarrow> 'a" where
  "max_key_loop key best [] = best"
| "max_key_loop key best (x # xs) = max_key_loop key (if key best < key x then x else best) xs"

definition py_max_key :: "('a \<Rightarrow> nat) \<Rightarrow> 'a list \<Rightarrow> py_error + 'a" where
  "py_max_key key xs =
     (case xs of
        [] \<Rightarrow> Inl (ValueError ''max() arg is an empty sequence'')
      | x # xs' \<Rightarrow> Inr (max_key_loop key x xs'))"

definition cell_at :: "dataframe \<Rightarrow> string \<Rightarrow> nat \<Rightarrow> py_error + cell" where
  "cell_at bbc name i =
     (case col_index bbc name of None \<Rightarrow> Inl KeyError | Some j \<Rightarrow> Inr (rows bbc ! i ! j))"

definition is_balanced_bin :: "dataframe \<Rightarrow> int \<Rightarrow> string \<Rightarrow> nat \<Rightarrow> py_error + bool" where
  "is_balanced_bin bbc n_clones largest_balanced i =
     (case sequence_err (map (\<lambda>j. cell_at bbc (''cn_clone'' @ py_str (j + 1)) i) [0..<nat n_clones]) of
        Inl e \<Rightarrow> Inl e
      | Inr cs \<Rightarrow>
          if list_all (\<lambda>c. c = CStr largest_balanced) cs
          then (case cell_at bbc ''RD'' i of
                  Inl e \<Rightarrow> Inl e
                | Inr c \<Rightarrow> (case cell_num c of Inl e \<Rightarrow> Inl e | Inr rd \<Rightarrow> Inr (0 < rd)))
          else Inr False)"

definition balanced_idx :: "dataframe \<Rightarrow> int \<Rightarrow> string \<Rightarrow> py_error + nat list" where
  "balanced_idx bbc n_clones largest_balanced =
     (case sequence_err (map (is_balanced_bin bbc n_clones largest_balanced) [0..<length (rows bbc)]) of
        Inl e \<Rightarrow> Inl e
      | Inr bs \<Rightarrow> Inr (filter (\<lambda>i. bs ! i) [0..<length (rows bbc)]))"

definition gamma_mean :: "dataframe \<Rightarrow> real list \<Rightarrow> nat list \<Rightarrow> py_error + npfloat" where
  "gamma_mean bbc fcn idx =
     (case col_index bbc ''RD'' of
        None \<Rightarrow> Inl AttributeError
      | Some j \<Rightarrow>
         (case sequence_err (map (\<lambda>i. cell_num (rows bbc ! i ! j)) idx) of
            Inl e \<Rightarrow> Inl e
          | Inr rds \<Rightarrow> Inr (np_mean (map (\<lambda>(f, rd). np_div f rd) (zip (map (\<lambda>i. fcn ! i) idx) rds)))))"

definition balanced_states :: "string list" where
  "balanced_states = [''1|1'', ''2|2'', ''3|3'', ''4|4'']"

definition compute_gamma :: "string list \<Rightarrow> dataframe \<Rightarrow> py_error + (int \<times> npfloat)" where
  "compute_gamma balanced_options bbc =
     (let n_clones = n_clones_gamma bbc in
      case fractional_cn bbc n_clones of
        Inl e \<Rightarrow> Inl e
      | Inr fcn \<Rightarrow>
     (case largest_clone bbc n_clones of
        Inl e \<Rightarrow> Inl e
      | Inr lc \<Rightarrow>
     (case get_col bbc (''cn_clone'' @ py_str (lc + 1)) of
        Inl e \<Rightarrow> Inl e
      | Inr cns \<Rightarrow>
     (let dominant_cns = Counter cns;
          key = (\<lambda>x. case map_of dominant_cns (CStr x) of None \<Rightarrow> 0 | Some c \<Rightarrow> c)
      in case py_max_key key balanced_options of
        Inl e \<Rightarrow> Inl e
      | Inr largest_balanced \<Rightarrow>
     (case balanced_idx bbc n_clones largest_balanced of
        Inl e \<Rightarrow> Inl e
      | Inr idx \<Rightarrow>
          if length idx = 0
          then (case py_max_key key (remove1 largest_balanced balanced_options) of
                  Inl e \<Rightarrow> Inl e
                | Inr largest_balanced2 \<Rightarrow>
               (case balanced_idx bbc n_clones largest_balanced2 of
                  Inl e \<Rightarrow> Inl e
                | Inr idx2 \<Rightarrow>
               (case gamma_mean bbc fcn idx2 of
                  Inl e \<Rightarrow> Inl e
                | Inr gamma \<Rightarrow> Inr (n_clones, gamma))))
          else (case gamma_mean bbc fcn idx of
                  Inl e \<Rightarrow> Inl e
                | Inr gamma \<Rightarrow> Inr (n_clones, gamma)))))))"

text \<open>
  The typed reading of a table in the layout of \<^verbatim>\<open>best.bbc.ucn\<close> with \<open>n\<close> tumor clones:
  \<^verbatim>\<open>RD\<close> is column 4, the state and the proportion of the normal clone are columns 11
  and 12, those of tumor clone \<open>i\<close> are columns \<open>11 + 2 i\<close> and \<open>12 + 2 i\<close>. States are
  text of the form \<^verbatim>\<open>a|b\<close>, \<^verbatim>\<open>RD\<close> and the proportions are numbers, and there is
  at least one bin.
\<close>

definition cell_total :: "cell \<Rightarrow> int" where
  "cell_total c =
     (case cell_text c of
        Inl e \<Rightarrow> 0
      | Inr s \<Rightarrow> (case cn2total s of Inl e \<Rightarrow> 0 | Inr t \<Rightarrow> t))"

definition cell_real :: "cell \<Rightarrow> real" where
  "cell_real c = (case cell_num c of Inl e \<Rightarrow> 0 | Inr x \<Rightarrow> x)"

definition valid_state :: "cell \<Rightarrow> bool" where
  "valid_state c =
     (case cell_text c of
        Inl e \<Rightarrow> False
      | Inr s \<Rightarrow> (case cn2total s of Inl e \<Rightarrow> False | Inr t \<Rightarrow> True))"

definition is_num :: "cell \<Rightarrow> bool" where
  "is_num c = (case cell_num c of Inl e \<Rightarrow> False | Inr x \<Rightarrow> True)"

definition typed_row :: "nat \<Rightarrow> cell list \<Rightarrow> bool" where
  "typed_row n r \<longleftrightarrow>
     length r = 13 + 2 * n \<and> is_num (r ! 4) \<and>
     list_all (\<lambda>i. valid_state (r ! (11 + 2 * i)) \<and> is_num (r ! (12 + 2 * i))) [0..<Suc n]"

definition ucn_layout :: "nat \<Rightarrow> dataframe \<Rightarrow> bool" where
  "ucn_layout n bbc \<longleftrightarrow>
     0 < n \<and> rows bbc \<noteq> [] \<and> length (columns bbc) = 13 + 2 * n \<and>
     col_index bbc ''RD'' = Some 4 \<and>
     list_all (\<lambda>i. col_index bbc (''cn_clone'' @ py_str (Suc i)) = Some (13 + 2 * i) \<and>
                   col_index bbc (''u_clone'' @ py_str (Suc i)) = Some (14 + 2 * i)) [0..<n] \<and>
     list_all (typed_row n) (rows bbc)"

definition rd_of :: "cell list \<Rightarrow> real" where
  "rd_of r = cell_real (r ! 4)"

definition fcn_of :: "nat \<Rightarrow> cell list \<Rightarrow> real" where
  "fcn_of n r =
     sum_list (map (\<lambda>i. real_of_int (cell_total (r ! (11 + 2 * i))) * cell_real (r ! (12 + 2 * i)))
                [0..<Suc n])"

definition balanced_row :: "nat \<Rightarrow> string \<Rightarrow> cell list \<Rightarrow> bool" where
  "balanced_row n c r \<longleftrightarrow> list_all (\<lambda>j. r ! (13 + 2 * j) = CStr c) [0..<n] \<and> 0 < rd_of r"

definition balanced_bins :: "nat \<Rightarrow> string \<Rightarrow> cell list list \<Rightarrow> cell list list" where
  "balanced_bins n c rs = filter (balanced_row n c) rs"

definition gamma_of :: "nat \<Rightarrow> cell list list \<Rightarrow> npfloat" where
  "gamma_of n rs = np_mean (map (\<lambda>r. np_div (fcn_of n r) (rd_of r)) rs)"

definition dominant_clone :: "nat \<Rightarrow> dataframe \<Rightarrow> nat" where
  "dominant_clone n bbc =
     (let us = map (\<lambda>i. cell_real (hd (rows bbc) ! (14 + 2 * i))) [0..<n]
      in first_index us (max_list us))"

definition dominant_count :: "nat \<Rightarrow> dataframe \<Rightarrow> string \<Rightarrow> nat" where
  "dominant_count n bbc x = count_list (column_at bbc (13 + 2 * dominant_clone n bbc)) (CStr x)"

definition first_candidate :: "string list \<Rightarrow> nat \<Rightarrow> dataframe \<Rightarrow> string" where
  "first_candidate opts n bbc = max_key_loop (dominant_count n bbc) (hd opts) (tl opts)"

definition second_candidate :: "string list \<Rightarrow> nat \<Rightarrow> dataframe \<Rightarrow> string" where
  "second_candidate opts n bbc =
     (let rest = remove1 (first_candidate opts n bbc) opts
      in max_key_loop (dominant_count n bbc) (hd rest) (tl rest))"

text \<open>
  Tables in that layout, built from the read depth of each bin and its pairs of state and
  proportion (the normal clone first).
\<close>

definition std_columns :: "nat \<Rightarrow> string list" where
  "std_columns n =
     [''#CHR'', ''START'', ''END'', ''SAMPLE'', ''RD'', ''#SNPS'', ''COV'', ''ALPHA'', ''BETA'',
      ''BAF'', ''CLUSTER'', ''cn_normal'', ''u_normal''] @
     concat (map (\<lambda>i. [''cn_clone'' @ py_str (Suc i), ''u_clone'' @ py_str (Suc i)]) [0..<n])"

definition ucn_table :: "nat \<Rightarrow> (real \<times> (string \<times> real) list) list \<Rightarrow> dataframe" where
  "ucn_table n bins =
     \<lparr>columns = std_columns n,
      rows = map (\<lambda>(rd, cus). [CStr ''chr1'', CInt 0, CInt 1000, CStr ''S1'', CFloat rd, CInt 10,
                                 CFloat 30, CFloat 5, CFloat 5, CFloat (1/2), CInt 0] @
                                concat (map (\<lambda>(c, u). [CStr c, CFloat u]) cus)) bins\<rparr>"

definition bbc_rd12 :: dataframe where
  "bbc_rd12 = ucn_table 1 [(1, [(''2|2'', 1/2), (''2|2'', 1/2)]), (2, [(''2|2'', 1/2), (''2|2'', 1/2)])]"


definition bbc_retry :: dataframe where
  "bbc_retry = ucn_table 1
     [(0, [(''1|1'', 1/2), (''1|1'', 1/2)]), (0, [(''1|1'', 1/2), (''1|1'', 1/2)]),
      (0, [(''1|1'', 1/2), (''1|1'', 1/2)]), (0, [(''1|1'', 1/2), (''2|2'', 1/2)]),
      (0, [(''1|1'', 1/2), (''2|2'', 1/2)]), (1, [(''1|1'', 1/2), (''3|3'', 1/2)])]"

section \<open>The data path of \<^verbatim>\<open>plot_clusters\<close>\<close>

text \<open>
  \<^verbatim>\<open>
  samples = bbc.SAMPLE.unique()
  ...
  n_states = len(mapping)
  ... mapping = {k:v%20 for k,v in mapping.items()}       (or the 40-colour variant)
  for idx,sample in enumerate(samples):
      bbc_ = bbc[bbc.SAMPLE == sample]
      bbc_ = bbc_.reset_index(drop=True)
      n_clones = max([i for i in range(5) if f'cn_clone{i}' in bbc_.columns])
      props = np.array([bbc_.iloc[0, 2 * i + 12] for i in range(n_clones + 1)]).round(6)
      n_clones2, gamma = compute_gamma(bbc_)
      assert n_clones2 == n_clones
      if n_clones == 1:
          my_colors = [cmap(mapping[r]) for r in bbc_.cn_clone1]
      else:
          my_colors = [cmap(mapping[tuple(r)]) for _, r in
                       bbc_[[f'cn_clone{i + 1}' for i in range(n_clones)]].iterrows()]
      my_ax.scatter(bbc_.BAF, bbc_.RD * gamma, c = my_colors, s = 1)
      exs = []; eys = []; cs = []
      for k, _ in bbc_.groupby([f'cn_clone{i + 1}' for i in range(n_clones)]):
          if type(k) == str:
              state = [(1,1), str2state(k)]
          else:
              state = [(1,1)] + [str2state(a) for a in k]
          ey, ex = cn2evs(state, props)
          ... my_ax.annotate(...)
          exs.append(ex); eys.append(ey)
          cs.append(cmap(mapping[k]))
      my_ax.scatter(exs, eys, s = 10, c = cs, edgecolor = 'k', linewidth = 0.8)
  \<close>
  The function is embedded with its default arguments, from its first line to the second
  \<^verbatim>\<open>scatter\<close> of every sample; the legend, the axis limits and the saving that follow are
  not. The calls into matplotlib are taken to return: the embedding keeps what is handed
  to them, per sample the colour arguments of the bins and, per group, the centroid and
  its colour argument. The sample's table \<^verbatim>\<open>bbc_\<close> is \<open>bbc_s\<close>. A missing attribute
  (\<^verbatim>\<open>bbc.SAMPLE\<close>, \<^verbatim>\<open>bbc_.cn_clone1\<close>, \<^verbatim>\<open>bbc_.BAF\<close>, \<^verbatim>\<open>bbc_.RD\<close>) is AttributeError,
  a missing dictionary key is KeyError, iterating a number is TypeError.
  \<^verbatim>\<open>round(6)\<close> rounds half to even at the sixth decimal.
\<close>

definition round_half_even :: "real \<Rightarrow> int" where
  "round_half_even x =
     (let f = \<lfloor>x\<rfloor>; d = x - real_of_int f
      in if d < 1/2 then f else if 1/2 < d then f + 1 else if even f then f else f + 1)"

definition np_round6 :: "real \<Rightarrow> real" where
  "np_round6 x = real_of_int (round_half_even (x * 1000000)) / 1000000"

definition sample_frame :: "dataframe \<Rightarrow> nat \<Rightarrow> cell \<Rightarrow> dataframe" where
  "sample_frame bbc j sample = bbc\<lparr>rows := filter (\<lambda>r. key_cell (r ! j) = sample) (rows bbc)\<rparr>"

definition sample_props :: "dataframe \<Rightarrow> nat \<Rightarrow> py_error + real list" where
  "sample_props bbc_s n_clones =
     (case sequence_err (map (\<lambda>i. case rows bbc_s of
                                    [] \<Rightarrow> Inl IndexError
                                  | r # _ \<Rightarrow> if 2 * i + 12 < length (columns bbc_s)
                                             then Inr (r ! (2 * i + 12)) else Inl IndexError)
                           [0..<n_clones + 1]) of
        Inl e \<Rightarrow> Inl e
      | Inr cs \<Rightarrow>
          (case sequence_err (map cell_num cs) of
             Inl e \<Rightarrow> Inl e
           | Inr xs \<Rightarrow> Inr (map np_round6 xs)))"

definition bin_keys :: "dataframe \<Rightarrow> nat \<Rightarrow> py_error + key list" where
  "bin_keys bbc_s n_clones =
     (if n_clones = 1
      then (case col_index bbc_s ''cn_clone1'' of
              None \<Rightarrow> Inl AttributeError
            | Some j \<Rightarrow> Inr (map (\<lambda>r. Bare (key_cell (r ! j))) (rows bbc_s)))
      else (case state_columns bbc_s n_clones of
              Inl e \<Rightarrow> Inl e
            | Inr js \<Rightarrow> Inr (map (\<lambda>r. Tuple (row_states js r)) (rows bbc_s))))"

definition centroid_state :: "key \<Rightarrow> py_error + int list list" where
  "centroid_state k =
     (case k of
        Bare c \<Rightarrow>
          (case c of
             CStr s \<Rightarrow> (case str2state s of Inl e \<Rightarrow> Inl e | Inr st \<Rightarrow> Inr [[1, 1], st])
           | CInt i \<Rightarrow> Inl TypeError
           | CFloat x \<Rightarrow> Inl TypeError)
      | Tuple cs \<Rightarrow>
          (case sequence_err (map (\<lambda>a. case cell_text a of Inl e \<Rightarrow> Inl e | Inr s \<Rightarrow> str2state s) cs) of
             Inl e \<Rightarrow> Inl e
           | Inr sts \<Rightarrow> Inr ([1, 1] # sts)))"

definition centroid ::
  "(key \<times> cmap_arg) list \<Rightarrow> real list \<Rightarrow> key \<Rightarrow> py_error + (npfloat \<times> real \<times> cmap_arg)" where
  "centroid mapping props k =
     (case centroid_state k of
        Inl e \<Rightarrow> Inl e
      | Inr state \<Rightarrow>
     (case cn2evs state props of
        Inl e \<Rightarrow> Inl e
      | Inr (ey, ex) \<Rightarrow>
     (case dict_get mapping k of
        Inl e \<Rightarrow> Inl e
      | Inr c \<Rightarrow> Inr (ex, ey, c))))"

definition plot_sample ::
  "pandas \<Rightarrow> string list \<Rightarrow> (key \<times> cmap_arg) list \<Rightarrow> dataframe \<Rightarrow>
     py_error + (cmap_arg list \<times> (npfloat \<times> real \<times> cmap_arg) list)" where
  "plot_sample pv balanced_options mapping bbc_s =
     (case n_clones_of bbc_s of
        Inl e \<Rightarrow> Inl e
      | Inr n_clones \<Rightarrow>
     (case sample_props bbc_s n_clones of
        Inl e \<Rightarrow> Inl e
      | Inr props \<Rightarrow>
     (case compute_gamma balanced_options bbc_s of
        Inl e \<Rightarrow> Inl e
      | Inr (n_clones2, gamma) \<Rightarrow>
          if n_clones2 = int n_clones
          then
     (case bin_keys bbc_s n_clones of
        Inl e \<Rightarrow> Inl e
      | Inr ks \<Rightarrow>
     (case sequence_err (map (dict_get mapping) ks) of
        Inl e \<Rightarrow> Inl e
      | Inr my_colors \<Rightarrow>
          if ''BAF'' \<in> set (columns bbc_s) \<and> ''RD'' \<in> set (columns bbc_s)
          then
     (case state_keys pv bbc_s n_clones of
        Inl e \<Rightarrow> Inl e
      | Inr gks \<Rightarrow>
     (case sequence_err (map (centroid mapping props) gks) of
        Inl e \<Rightarrow> Inl e
      | Inr cs \<Rightarrow> Inr (my_colors, cs)))
          else Inl AttributeError))
          else Inl AssertionError)))"

definition plot_clusters ::
  "pandas \<Rightarrow> string list \<Rightarrow> dataframe \<Rightarrow> (key \<times> int) list \<Rightarrow>
     py_error + (cmap_arg list \<times> (npfloat \<times> real \<times> cmap_arg) list) list" where
  "plot_clusters pv balanced_options bbc mapping0 =
     (case col_index bbc ''SAMPLE'' of
        None \<Rightarrow> Inl AttributeError
      | Some s \<Rightarrow>
         (let samples = unique (map key_cell (column_at bbc s));
              mapping = snd (color_mapping mapping0)
          in sequence_err (map (\<lambda>sample. plot_sample pv balanced_options mapping
                                            (sample_frame bbc s sample)) samples)))"

section \<open>Properties\<close>

lemma sequence_err_pairs0:
  "sequence_err (map (\<lambda>x. tuple_get x 0) (map (\<lambda>(a, b). [a, b]) ps)) = Inr (map fst ps)"
  by (induction ps) (auto simp: tuple_get_def)

lemma sequence_err_pairs1:
  "sequence_err (map (\<lambda>x. tuple_get x (Suc 0)) (map (\<lambda>(a, b). [a, b]) ps)) = Inr (map snd ps)"
  by (induction ps) (auto simp: tuple_get_def)

lemma zip_fst_snd: "zip (map fst ps) (map snd ps) = ps"
  by (induction ps) auto


subsection \<open>The state codec\<close>

lemma of_char_digit: "d < 10 \<Longrightarrow> of_char (char_of (48 + d :: nat)) = (48 + d :: nat)"
  by simp

lemma is_digit_char_of: "d < 10 \<Longrightarrow> is_digit (char_of (48 + d :: nat))"
  by (simp add: is_digit_def)

lemma digit_val_char_of: "d < 10 \<Longrightarrow> digit_val (char_of (48 + d :: nat)) = d"
  by (simp add: digit_val_def)

lemma py_str_digits: "list_all is_digit (py_str n)"
proof (induction n rule: py_str.induct)
  case (1 n)
  show ?case
  proof (cases "n < 10")
    case True
    then show ?thesis by (subst py_str.simps) (simp add: is_digit_char_of)
  next
    case False
    have "n mod 10 < 10" by simp
    with False 1 show ?thesis
      by (subst py_str.simps) (simp add: is_digit_char_of)
  qed
qed

lemma py_str_nonempty: "py_str n \<noteq> []"
  by (subst py_str.simps) simp

lemma digits_val_snoc: "digits_val (ds @ [c]) = 10 * digits_val ds + digit_val c"
  by (simp add: digits_val_def)

lemma digits_val_py_str: "digits_val (py_str n) = n"
proof (induction n rule: py_str.induct)
  case (1 n)
  show ?case
  proof (cases "n < 10")
    case True
    then show ?thesis
      by (subst py_str.simps) (simp add: digits_val_def digit_val_char_of)
  next
    case False
    have "n mod 10 < 10" by simp
    with False 1 show ?thesis
      by (subst py_str.simps) (simp add: digits_val_snoc digit_val_char_of)
  qed
qed

lemma is_digit_not_special:
  "is_digit c \<Longrightarrow> c \<noteq> CHR ''|'' \<and> c \<noteq> CHR ''_'' \<and> c \<noteq> CHR ''-'' \<and> c \<noteq> CHR ''+'' \<and> \<not> is_space c"
  by (auto simp: is_digit_def is_space_def)

lemma split_on_no_sep: "sep \<notin> set xs \<Longrightarrow> split_on sep xs = [xs]"
  by (induction xs) auto

lemma split_on_first_sep:
  "sep \<notin> set xs \<Longrightarrow> split_on sep (xs @ sep # ys) = xs # split_on sep ys"
  by (induction xs) auto

lemma dropWhile_none: "\<forall>x\<in>set xs. \<not> P x \<Longrightarrow> dropWhile P xs = xs"
  by (cases xs) auto

lemma strip_no_space: "\<forall>c\<in>set s. \<not> is_space c \<Longrightarrow> strip s = s"
  by (simp add: strip_def dropWhile_none)

lemma py_int_digits:
  assumes "ds \<noteq> []" and "list_all is_digit ds"
  shows "py_int ds = Inr (int (digits_val ds))"
proof -
  have all: "\<forall>c\<in>set ds. is_digit c" using assms(2) by (simp add: list_all_iff)
  have st: "strip ds = ds"
    using all is_digit_not_special by (intro strip_no_space) blast
  obtain c cs where ds: "ds = c # cs" using assms(1) by (cases ds) auto
  have c: "c \<noteq> CHR ''-''" "c \<noteq> CHR ''+''"
    using all is_digit_not_special by (auto simp: ds)
  have us: "CHR ''_'' \<notin> set ds" using all is_digit_not_special by blast
  have pd: "parse_digits ds = Some (digits_val ds)"
    using assms by (simp add: parse_digits_def split_on_no_sep [OF us])
  show ?thesis
    unfolding py_int_def st using c pd by (simp add: ds)
qed

lemma py_int_py_str: "py_int (py_str n) = Inr (int n)"
  by (simp add: py_int_digits py_str_nonempty py_str_digits digits_val_py_str)

lemma py_str_inj: "py_str m = py_str n \<Longrightarrow> m = n"
  by (metis digits_val_py_str)

lemma bar_notin_py_str: "CHR ''|'' \<notin> set (py_str n)"
  using py_str_digits [of n] is_digit_not_special by (auto simp: list_all_iff)

lemma split_token: "split_on (CHR ''|'') (py_str a @ ''|'' @ py_str b) = [py_str a, py_str b]"
  by (simp add: split_on_first_sep bar_notin_py_str split_on_no_sep)

lemma str2state_valid: "str2state (py_str a @ ''|'' @ py_str b) = Inr [int a, int b]"
  unfolding str2state_def split_token by (simp add: py_int_py_str)

lemma cn2total_valid: "cn2total (py_str a @ ''|'' @ py_str b) = Inr (int a + int b)"
  unfolding cn2total_def split_token by (simp add: py_int_py_str)

lemma cn2total_needs_two:
  "length (split_on (CHR ''|'') s) \<noteq> 2 \<Longrightarrow> cn2total s = Inl AssertionError"
  by (simp add: cn2total_def)

text \<open>
  Claim C9. \<^verbatim>\<open>cn2total\<close> rejects a token that does not split into exactly two parts
  (\<open>cn2total_needs_two\<close>) and both functions parse a valid token (\<open>str2state_valid\<close>,
  \<open>cn2total_valid\<close>), but \<^verbatim>\<open>str2state\<close> has no check of the number of parts: a token of
  three integers is parsed to a triple instead of being rejected.
\<close>

theorem str2state_three_parts: "str2state ''1|2|3'' = Inr [1, 2, 3]"
  by (simp add: str2state_def py_int_def strip_def is_space_def parse_digits_def is_digit_def digits_val_def digit_val_def)


subsection \<open>The state indexer\<close>


lemma keys_counter_add:
  "map fst (counter_add x kcs) = (if x \<in> set (map fst kcs) then map fst kcs else map fst kcs @ [x])"
  by (induction kcs) force+

lemma map_of_counter_add:
  "map_of (counter_add x kcs) k =
     (if k = x then Some (case map_of kcs x of None \<Rightarrow> 1 | Some c \<Rightarrow> Suc c) else map_of kcs k)"
  by (induction kcs) auto

lemma Counter_snoc: "Counter (xs @ [x]) = counter_add x (Counter xs)"
  by (simp add: Counter_def)

lemma keys_Counter: "fst ` set (Counter xs) = set xs"
proof (induction xs rule: rev_induct)
  case Nil
  then show ?case by (simp add: Counter_def)
next
  case (snoc x xs)
  have "set (map fst (Counter (xs @ [x]))) = set (xs @ [x])"
    unfolding Counter_snoc keys_counter_add using snoc by auto
  then show ?case by simp
qed

lemma distinct_Counter: "distinct (map fst (Counter xs))"
proof (induction xs rule: rev_induct)
  case Nil
  then show ?case by (simp add: Counter_def)
next
  case (snoc x xs)
  then show ?case
    unfolding Counter_snoc keys_counter_add by (simp add: keys_Counter)
qed

lemma map_of_Counter:
  "map_of (Counter xs) k = (if k \<in> set xs then Some (count_list xs k) else None)"
proof (induction xs rule: rev_induct)
  case Nil
  then show ?case by (simp add: Counter_def)
next
  case (snoc x xs)
  then show ?case by (auto simp: Counter_snoc map_of_counter_add)
qed

lemma first_index_snoc_in: "a \<in> set xs \<Longrightarrow> first_index (xs @ [x]) a = first_index xs a"
  by (simp add: first_index_def takeWhile_append1)

lemma first_index_less: "a \<in> set xs \<Longrightarrow> first_index xs a < length xs"
  unfolding first_index_def by (induction xs) auto

lemma first_index_snoc_new: "x \<notin> set xs \<Longrightarrow> first_index (xs @ [x]) x = length xs"
  unfolding first_index_def by (induction xs) auto

lemma first_index_inj:
  "a \<in> set xs \<Longrightarrow> first_index xs a = first_index xs b \<Longrightarrow> a = b"
  unfolding first_index_def by (induction xs) (auto split: if_splits)

lemma Counter_first_order:
  "sorted_wrt (\<lambda>a b. first_index xs a < first_index xs b) (map fst (Counter xs))"
proof (induction xs rule: rev_induct)
  case Nil
  then show ?case by (simp add: Counter_def)
next
  case (snoc x xs)
  have old: "sorted_wrt (\<lambda>a b. first_index (xs @ [x]) a < first_index (xs @ [x]) b) (map fst (Counter xs))"
    by (rule sorted_wrt_mono_rel [OF _ snoc.IH]) (simp add: keys_Counter first_index_snoc_in)
  show ?case
  proof (cases "x \<in> set xs")
    case True
    then show ?thesis using old
      unfolding Counter_snoc keys_counter_add by (simp add: keys_Counter)
  next
    case False
    then show ?thesis using old
      unfolding Counter_snoc keys_counter_add
      by (auto simp: keys_Counter sorted_wrt_append
          first_index_snoc_in first_index_snoc_new first_index_less)
  qed
qed

lemma insort_key_stable_wrt:
  fixes f :: "'a \<Rightarrow> 'b::linorder"
  assumes "sorted_wrt (\<lambda>p q. f p < f q \<or> (f p = f q \<and> Q p q)) ys"
      and "\<forall>y\<in>set ys. Q x y"
  shows "sorted_wrt (\<lambda>p q. f p < f q \<or> (f p = f q \<and> Q p q)) (insort_key f x ys)"
  using assms
proof (induction ys)
  case Nil
  then show ?case by simp
next
  case (Cons y ys)
  show ?case
  proof (cases "f x \<le> f y")
    case True
    have "\<forall>z\<in>set ys. f y \<le> f z" using Cons.prems(1) by auto
    with True Cons.prems show ?thesis by (auto simp: le_less)
  next
    case False
    with Cons show ?thesis by (auto simp: set_insort_key)
  qed
qed

lemma sort_key_stable_wrt:
  fixes f :: "'a \<Rightarrow> 'b::linorder"
  assumes "sorted_wrt Q xs"
  shows "sorted_wrt (\<lambda>p q. f p < f q \<or> (f p = f q \<and> Q p q)) (sort_key f xs)"
  using assms
proof (induction xs)
  case Nil
  then show ?case by simp
next
  case (Cons x xs)
  then show ?case by (simp add: insort_key_stable_wrt)
qed

lemma reindex_loop_fresh:
  "distinct (map fst items) \<Longrightarrow> set (map fst items) \<inter> set (map fst d) = {} \<Longrightarrow>
   reindex_loop items d j = d @ zip (map fst items) (map (\<lambda>i. j + int i) [0..<length items])"
proof (induction items arbitrary: d j)
  case Nil
  then show ?case by simp
next
  case (Cons it rest)
  obtain k c where it: "it = (k, c)" by (cases it)
  have fresh: "k \<notin> set (map fst d)" using Cons.prems(2) it by auto
  have step: "dict_set d k j = d @ [(k, j)]" using fresh by (simp add: dict_set_def)
  have d1: "distinct (map fst rest)" using Cons.prems(1) by simp
  have d2: "set (map fst rest) \<inter> set (map fst (d @ [(k, j)])) = {}"
    using Cons.prems it by auto
  have idx: "map (\<lambda>i. j + int i) [0..<Suc (length rest)]
             = j # map (\<lambda>i. j + 1 + int i) [0..<length rest]"
    by (simp add: upt_conv_Cons map_Suc_upt [symmetric] del: upt_Suc)
  show ?case
    using Cons.IH [OF d1 d2, of "j + 1"]
    by (simp add: it step idx del: upt_Suc)
qed

lemma sequence_err_all_Inr:
  "(\<And>x. x \<in> set xs \<Longrightarrow> f x = Inr (g x)) \<Longrightarrow> sequence_err (map f xs) = Inr (map g xs)"
  by (induction xs) auto

lemma most_common_keys_sorted:
  "sorted_wrt (prevalence_before labels) (map fst (most_common (Counter labels)))"
proof -
  let ?f = "\<lambda>(k, c). - int (c::nat)"
  let ?Q = "\<lambda>p q. first_index labels (fst p) < first_index labels (fst q)"
  have "sorted_wrt ?Q (Counter labels)"
    using Counter_first_order [of labels] by (simp add: sorted_wrt_map)
  then have s: "sorted_wrt (\<lambda>p q. ?f p < ?f q \<or> (?f p = ?f q \<and> ?Q p q)) (most_common (Counter labels))"
    unfolding most_common_def by (rule sort_key_stable_wrt)
  have cnt: "c = count_list labels k" if "(k, c) \<in> set (Counter labels)" for k c
  proof -
    have "map_of (Counter labels) k = Some c"
      by (rule map_of_is_SomeI [OF distinct_Counter that])
    then show ?thesis by (simp add: map_of_Counter split: if_splits)
  qed
  have "sorted_wrt (\<lambda>p q. prevalence_before labels (fst p) (fst q)) (most_common (Counter labels))"
  proof (rule sorted_wrt_mono_rel [OF _ s])
    fix p q
    assume p: "p \<in> set (most_common (Counter labels))"
       and q: "q \<in> set (most_common (Counter labels))"
       and r: "?f p < ?f q \<or> (?f p = ?f q \<and> ?Q p q)"
    obtain k c where pk: "p = (k, c)" by (cases p)
    obtain k' c' where qk: "q = (k', c')" by (cases q)
    have "c = count_list labels k" "c' = count_list labels k'"
      using p q cnt by (simp_all add: pk qk most_common_def)
    with r show "prevalence_before labels (fst p) (fst q)"
      by (auto simp: pk qk prevalence_before_def)
  qed
  then show ?thesis by (simp add: sorted_wrt_map)
qed

lemma most_common_keys:
  "distinct (map fst (most_common (Counter labels)))"
  "set (map fst (most_common (Counter labels))) = set labels"
  using distinct_Counter [of labels] keys_Counter [of labels]
  by (simp_all add: most_common_def distinct_map)

lemma prevalence_before_asym:
  "prevalence_before labels a b \<Longrightarrow> \<not> prevalence_before labels b a"
  by (auto simp: prevalence_before_def)

lemma reindex_characterisation:
  "\<exists>m. reindex labels = Inr (map (\<lambda>a. the (map_of m a)) labels, m) \<and>
       distinct (map fst m) \<and> set (map fst m) = set labels \<and>
       map snd m = map int [1..<Suc (card (set labels))] \<and>
       (\<forall>a\<in>set labels. \<forall>b\<in>set labels.
          \<exists>ra rb. map_of m a = Some ra \<and> map_of m b = Some rb \<and>
            (ra < rb) = prevalence_before labels a b)"
proof -
  define ks where "ks = map fst (most_common (Counter labels))"
  define vs where "vs = map (\<lambda>i. 1 + int i) [0..<length ks]"
  define m where "m = zip ks vs"
  have dist: "distinct ks" and sks: "set ks = set labels"
    using most_common_keys [of labels] by (simp_all add: ks_def)
  have len: "length ks = card (set labels)"
    using dist sks distinct_card by fastforce
  have loop: "reindex_loop (most_common (Counter labels)) [] 1 = m"
    using reindex_loop_fresh [of "most_common (Counter labels)" "[]" 1] dist
    by (simp add: ks_def m_def vs_def)
  have lv: "length vs = length ks" by (simp add: vs_def)
  have keys: "map fst m = ks" and vals: "map snd m = vs"
    by (simp_all add: m_def lv)
  have nth: "map_of m (ks ! i) = Some (1 + int i)" if "i < length ks" for i
    using map_of_zip_nth [of ks vs i] that dist lv by (simp add: m_def vs_def)
  have dom: "\<exists>r. map_of m a = Some r" if "a \<in> set labels" for a
    using that sks nth by (metis in_set_conv_nth)
  have get: "dict_get m a = Inr (the (map_of m a))" if "a \<in> set labels" for a
    using dom [OF that] by (auto simp: dict_get_def)
  have r1: "reindex labels = Inr (map (\<lambda>a. the (map_of m a)) labels, m)"
    unfolding reindex_def loop Let_def
    by (simp add: sequence_err_all_Inr [of labels "dict_get m" "\<lambda>a. the (map_of m a)"] get)
  have r2: "map snd m = map int [1..<Suc (card (set labels))]"
    unfolding vals vs_def len
    by (simp add: map_Suc_upt [symmetric] del: upt_Suc) 
  have srt: "sorted_wrt (prevalence_before labels) ks"
    unfolding ks_def by (rule most_common_keys_sorted)
  have r3: "\<exists>ra rb. map_of m a = Some ra \<and> map_of m b = Some rb \<and>
            (ra < rb) = prevalence_before labels a b"
    if a: "a \<in> set labels" and b: "b \<in> set labels" for a b
  proof -
    obtain i where i: "i < length ks" "ks ! i = a" using a sks by (metis in_set_conv_nth)
    obtain j where j: "j < length ks" "ks ! j = b" using b sks by (metis in_set_conv_nth)
    have fwd: "prevalence_before labels a b" if "i < j"
      using sorted_wrt_nth_less [OF srt that j(1)] i j by simp
    have bwd: "i < j" if p: "prevalence_before labels a b"
    proof (rule ccontr)
      assume "\<not> i < j"
      then consider "j < i" | "i = j" by linarith
      then show False
      proof cases
        case 1
        then have "prevalence_before labels b a"
          using sorted_wrt_nth_less [OF srt 1 i(1)] i j by simp
        with prevalence_before_asym [OF p] show False by simp
      next
        case 2
        then have "a = b" using i j by simp
        with p show False by (simp add: prevalence_before_def)
      qed
    qed
    have "map_of m a = Some (1 + int i)" "map_of m b = Some (1 + int j)"
      using nth i j by auto
    moreover have "(1 + int i < 1 + int j) = prevalence_before labels a b"
      using fwd bwd by auto
    ultimately show ?thesis by blast
  qed
  show ?thesis
    apply (rule exI [of _ m])
    using r1 r2 r3 dist sks keys by simp
qed

text \<open>
  Claim C5. On any sequence of keys the indexer returns without raising; the mapping has
  exactly the distinct keys of the input, carries the consecutive ranks 1..N in its
  order, and ranks key \<open>a\<close> before key \<open>b\<close> exactly when \<open>a\<close> occurs more often, or
  equally often with an earlier first occurrence. The result is a function of the input
  sequence alone, so repeated invocations agree.
\<close>

theorem reindex_ranks:
  "\<exists>m. reindex labels = Inr (map (\<lambda>a. the (map_of m a)) labels, m) \<and>
       distinct (map fst m) \<and> set (map fst m) = set labels \<and>
       map snd m = map int [1..<Suc (card (set labels))] \<and>
       (\<forall>a\<in>set labels. \<forall>b\<in>set labels.
          \<exists>ra rb. map_of m a = Some ra \<and> map_of m b = Some rb \<and>
            (ra < rb) =
              (count_list labels b < count_list labels a \<or>
               (count_list labels a = count_list labels b \<and>
                first_index labels a < first_index labels b)))"
  using reindex_characterisation [of labels] unfolding prevalence_before_def .

theorem reindex_ranks_witness:
  "''a'' \<in> set [''a'', ''b'', ''b'', ''c'', ''c''] \<and> ''c'' \<in> set [''a'', ''b'', ''b'', ''c'', ''c''] \<and>
   reindex [''a'', ''b'', ''b'', ''c'', ''c''] =
     Inr ([3, 1, 1, 2, 2], [(''b'', 1), (''c'', 2), (''a'', 3)])"
proof -
  have "reindex [''a'', ''b'', ''b'', ''c'', ''c''] =
     Inr ([3, 1, 1, 2, 2], [(''b'', 1), (''c'', 2), (''a'', 3)])"
    by (simp add: reindex_def most_common_def Counter_def dict_set_def dict_get_def)
  then show ?thesis using reindex_ranks [of "[''a'', ''b'', ''b'', ''c'', ''c'']"] by simp
qed


subsection \<open>Expected values and colours\<close>

theorem cn2evs_example_counterexample:
  "cn2evs [[1, 1], [2, 0]] [1/2, 1/2] \<noteq> Inr (2, Fin 0)"
  by (simp add: cn2evs_def tuple_get_def np_div_def)

lemma cn2evs_pairs:
  "length ps = length props \<Longrightarrow>
     cn2evs (map (\<lambda>(a, b). [a, b]) ps) props =
       Inr (\<Sum>((a, b), p) \<leftarrow> zip ps props. real_of_int (a + b) * p,
            np_div (\<Sum>((a, b), p) \<leftarrow> zip ps props. real_of_int b * p)
                   (\<Sum>((a, b), p) \<leftarrow> zip ps props. real_of_int (a + b) * p))"
proof -
  have z1: "map (\<lambda>((a, b), p). real_of_int (a + b) * p) (zip (zip (map fst ps) (map snd ps)) props)
       = map (\<lambda>((a, b), p). real_of_int (a + b) * p) (zip ps props)"
    by (simp add: zip_fst_snd)
  have z2: "map (\<lambda>(b, p). real_of_int b * p) (zip (map snd ps) props)
       = map (\<lambda>((a, b), p). real_of_int b * p) (zip ps props)"
    by (induction ps arbitrary: props) (auto simp: zip_Cons1 split: list.splits)
  have gen: "length ps = length props \<longrightarrow>
      cn2evs (map (\<lambda>(a, b). [a, b]) ps) props =
        Inr (\<Sum>((a, b), p) \<leftarrow> zip ps props. real_of_int (a + b) * p,
             np_div (\<Sum>((a, b), p) \<leftarrow> zip ps props. real_of_int b * p)
                    (\<Sum>((a, b), p) \<leftarrow> zip ps props. real_of_int (a + b) * p))"
    unfolding cn2evs_def
    apply (simp only: sequence_err_pairs0 sequence_err_pairs1 One_nat_def z1 z2 Let_def sum.case length_map)
    apply simp
    done
  then show "length ps = length props \<Longrightarrow>
     cn2evs (map (\<lambda>(a, b). [a, b]) ps) props =
       Inr (\<Sum>((a, b), p) \<leftarrow> zip ps props. real_of_int (a + b) * p,
            np_div (\<Sum>((a, b), p) \<leftarrow> zip ps props. real_of_int b * p)
                   (\<Sum>((a, b), p) \<leftarrow> zip ps props. real_of_int (a + b) * p))"
    by blast
qed

text \<open>
  Claim C4, as amended. On the state vector [(1,1), (2,0)] with proportions [0.5, 0.5] the
  projector returns expected FCN 2 and expected BAF 1/4 (the normal clone contributes
  B = 1); in general, on pairs \<open>(A, B)\<close> with as many proportions as clones and a nonzero
  sum of \<open>(A + B) * p\<close>, the expected FCN is that sum and the expected BAF is the sum of
  \<open>B * p\<close> divided by the expected FCN.
\<close>

theorem cn2evs_formula:
  "cn2evs [[1, 1], [2, 0]] [1/2, 1/2] = Inr (2, Fin (1/4)) \<and>
   (length ps = length props \<longrightarrow>
    (\<Sum>((a, b), p) \<leftarrow> zip ps props. real_of_int (a + b) * p) \<noteq> 0 \<longrightarrow>
      cn2evs (map (\<lambda>(a, b). [a, b]) ps) props =
        Inr (\<Sum>((a, b), p) \<leftarrow> zip ps props. real_of_int (a + b) * p,
             Fin ((\<Sum>((a, b), p) \<leftarrow> zip ps props. real_of_int b * p) /
                  (\<Sum>((a, b), p) \<leftarrow> zip ps props. real_of_int (a + b) * p))))"
proof -
  have ex: "cn2evs [[1, 1], [2, 0]] [1/2, 1/2] = Inr (2, Fin (1/4))"
    by (simp add: cn2evs_def tuple_get_def np_div_def)
  have "cn2evs (map (\<lambda>(a, b). [a, b]) ps) props =
        Inr (\<Sum>((a, b), p) \<leftarrow> zip ps props. real_of_int (a + b) * p,
             Fin ((\<Sum>((a, b), p) \<leftarrow> zip ps props. real_of_int b * p) /
                  (\<Sum>((a, b), p) \<leftarrow> zip ps props. real_of_int (a + b) * p)))"
    if "length ps = length props"
      and "(\<Sum>((a, b), p) \<leftarrow> zip ps props. real_of_int (a + b) * p) \<noteq> 0"
    using cn2evs_pairs [OF that(1)] that(2) by (simp add: np_div_def)
  with ex show ?thesis by blast
qed

theorem cn2evs_formula_witness:
  "length [(1, 1), (3, 1)] = length [1/4, 3/4 :: real] \<and>
   (\<Sum>((a, b), p) \<leftarrow> zip [(1, 1), (3, 1)] [1/4, 3/4 :: real]. real_of_int (a + b) * p) = 7/2 \<and>
   cn2evs [[1, 1], [3, 1]] [1/4, 3/4] = Inr (7/2, Fin (2/7))"
  using cn2evs_formula [of "[(1, 1), (3, 1)]" "[1/4, 3/4]"]
  by simp

text \<open>
  Claim C6. With N the number of keys of the mapping, a key of rank \<open>r\<close> is sent to
  palette index \<open>r mod 20\<close> of the 20-colour palette when N is at most 20, and to the
  position \<open>(r mod 40) / N\<close> of the combined colormap when N exceeds 20; N = 21 takes
  the second branch.
\<close>

theorem color_mapping_branches:
  assumes "distinct (map fst mapping)" and "map_of mapping k = Some r"
  shows "(length mapping \<le> 20 \<longrightarrow>
            fst (color_mapping mapping) = Tab20 \<and>
            map_of (snd (color_mapping mapping)) k = Some (PaletteIndex (r mod 20))) \<and>
         (length mapping > 20 \<longrightarrow>
            fst (color_mapping mapping) = Combined40 \<and>
            map_of (snd (color_mapping mapping)) k =
              Some (Position (real_of_int (r mod 40) / real (length mapping)))) \<and>
         (length mapping = 21 \<longrightarrow> fst (color_mapping mapping) = Combined40)"
proof -
  have a: "map_of (map (\<lambda>(k, v). (k, f v)) mapping) k = Some (f r)" for f :: "int \<Rightarrow> cmap_arg"
    using assms(2) by (induction mapping) (auto split: if_splits)
  show ?thesis
    by (auto simp: color_mapping_def Let_def a)
qed

theorem color_mapping_branches_witness:
  "distinct (map fst (map (\<lambda>i. (i, int i + 1)) [0..<21])) \<and>
   map_of (map (\<lambda>i. (i, int i + 1)) [0..<21]) (20::nat) = Some 21 \<and>
   length (map (\<lambda>i. (i, int i + 1)) [0..<21]) = 21 \<and>
   map_of (snd (color_mapping (map (\<lambda>i. (i, int i + 1)) [0..<21]))) (20::nat) = Some (Position 1)"
proof -
  have d: "distinct (map fst (map (\<lambda>i. (i, int i + 1)) [0..<21]))"
    by (simp add: comp_def)
  have m: "map_of (map (\<lambda>i. (i, int i + 1)) [0..<21]) (20::nat) = Some 21"
    by code_simp
  from color_mapping_branches [OF d m] d m show ?thesis by simp
qed

subsection \<open>The entry point: chromosome names and the axis\<close>

lemma set_unique [simp]: "set (unique xs) = set xs"
  by (simp add: unique_def)

lemma col_index_Some:
  "name \<in> set (columns df) \<Longrightarrow> col_index df name = Some (first_index (columns df) name)"
  by (simp add: col_index_def)

lemma col_index_None: "name \<notin> set (columns df) \<Longrightarrow> col_index df name = None"
  by (simp add: col_index_def)

lemma column_at_set_col:
  assumes "wf_frame df" and "j < length (columns df)" and "length vs = length (rows df)"
  shows "column_at (set_col df j vs) j = vs"
proof -
  have "map (\<lambda>r. r ! j) (map (\<lambda>(r, v). r[j := v]) (zip rs vs)) = vs"
    if "\<forall>r\<in>set rs. j < length r" and "length vs = length rs" for rs :: "cell list list"
    using that by (induction rs arbitrary: vs) (auto simp: length_Suc_conv)
  then show ?thesis using assms by (simp add: column_at_def set_col_def wf_frame_def)
qed

lemma column_at_set_col_other:
  assumes "j' \<noteq> j" and "length vs = length (rows df)"
  shows "column_at (set_col df j vs) j' = column_at df j'"
proof -
  have "map (\<lambda>r. r ! j') (map (\<lambda>(r, v). r[j := v]) (zip rs vs)) = map (\<lambda>r. r ! j') rs"
    if "length vs = length rs" for rs :: "cell list list"
    using that assms(1) by (induction rs arbitrary: vs) (auto simp: length_Suc_conv)
  then show ?thesis using assms by (simp add: column_at_def set_col_def)
qed

text \<open>
  Claim C8. The entry point raises ValueError at once when the table has no \<^verbatim>\<open>#CHR\<close>
  column, and raises ValueError when some chromosome names start with \<^verbatim>\<open>chr\<close> and
  others do not. When no name starts with \<^verbatim>\<open>chr\<close>, the normalisation step raises
  nothing and returns the table with \<^verbatim>\<open>chr\<close> put before every chromosome name, all
  other columns unchanged.
\<close>

theorem chr_notation_handling:
  fixes bbc :: dataframe and float_repr :: "real \<Rightarrow> string"
  defines "j \<equiv> first_index (columns bbc) ''#CHR''"
  defines "prefixed \<equiv> \<lambda>a. startswith (cell_str float_repr a) ''chr''"
  shows "(''#CHR'' \<notin> set (columns bbc) \<longrightarrow>
            generate_1D2D_plots pv float_repr bbc =
              Inl (ValueError ''Input table is malformed (missing #CHR column)'')) \<and>
         (''#CHR'' \<in> set (columns bbc) \<and> (\<exists>a\<in>set (column_at bbc j). prefixed a) \<and>
            (\<exists>a\<in>set (column_at bbc j). \<not> prefixed a) \<longrightarrow>
            generate_1D2D_plots pv float_repr bbc =
              Inl (ValueError ''Some chromosomes use chr notation while others do not.'')) \<and>
         (''#CHR'' \<in> set (columns bbc) \<and> wf_frame bbc \<and> (\<forall>a\<in>set (column_at bbc j). \<not> prefixed a) \<longrightarrow>
            (\<exists>bbc'. normalize_chr float_repr bbc = Inr bbc' \<and> columns bbc' = columns bbc \<and>
               column_at bbc' j = map (\<lambda>a. CStr (''chr'' @ cell_str float_repr a)) (column_at bbc j) \<and>
               (\<forall>j'. j' \<noteq> j \<longrightarrow> column_at bbc' j' = column_at bbc j')))"
proof (intro conjI impI)
  assume "''#CHR'' \<notin> set (columns bbc)"
  then show "generate_1D2D_plots pv float_repr bbc =
              Inl (ValueError ''Input table is malformed (missing #CHR column)'')"
    by (simp add: generate_1D2D_plots_def normalize_chr_def col_index_None)
next
  assume a: "''#CHR'' \<in> set (columns bbc) \<and> (\<exists>a\<in>set (column_at bbc j). prefixed a) \<and>
            (\<exists>a\<in>set (column_at bbc j). \<not> prefixed a)"
  then have "normalize_chr float_repr bbc =
       Inl (ValueError ''Some chromosomes use chr notation while others do not.'')"
    unfolding normalize_chr_def
    by (auto simp: col_index_Some j_def prefixed_def Let_def list_ex_iff list_all_iff)
  then show "generate_1D2D_plots pv float_repr bbc =
              Inl (ValueError ''Some chromosomes use chr notation while others do not.'')"
    by (simp add: generate_1D2D_plots_def)
next
  assume a: "''#CHR'' \<in> set (columns bbc) \<and> wf_frame bbc \<and> (\<forall>a\<in>set (column_at bbc j). \<not> prefixed a)"
  let ?vs = "map (\<lambda>a. CStr (''chr'' @ cell_str float_repr a)) (column_at bbc j)"
  have n: "normalize_chr float_repr bbc = Inr (set_col bbc j ?vs)"
    using a unfolding normalize_chr_def
    by (auto simp: col_index_Some j_def prefixed_def Let_def list_ex_iff list_all_iff)
  have jl: "j < length (columns bbc)"
    using a unfolding j_def by (simp add: first_index_less)
  have lv: "length ?vs = length (rows bbc)" by (simp add: column_at_def)
  show "\<exists>bbc'. normalize_chr float_repr bbc = Inr bbc' \<and> columns bbc' = columns bbc \<and>
               column_at bbc' j = ?vs \<and>
               (\<forall>j'. j' \<noteq> j \<longrightarrow> column_at bbc' j' = column_at bbc j')"
    using n column_at_set_col [OF _ jl lv] column_at_set_col_other [OF _ lv] a
    by (auto simp: set_col_def)
qed



lemma sequence_err_Cons_Inr:
  "sequence_err (r # rs) = Inr ys \<longleftrightarrow> (\<exists>v vs. r = Inr v \<and> sequence_err rs = Inr vs \<and> ys = v # vs)"
  by (cases r; cases "sequence_err rs") auto

lemma sequence_err_keys:
  assumes "sequence_err (map f xs) = Inr ys"
      and "\<And>x y. x \<in> set xs \<Longrightarrow> f x = Inr y \<Longrightarrow> g y = x"
  shows "map g ys = xs"
  using assms
proof (induction xs arbitrary: ys)
  case Nil
  then show ?case by simp
next
  case (Cons x xs)
  from Cons.prems(1) obtain v vs where v: "f x = Inr v" "sequence_err (map f xs) = Inr vs" "ys = v # vs"
    unfolding list.map sequence_err_Cons_Inr by blast
  have "g v = x" using Cons.prems(2) [of x v] v(1) by simp
  moreover have "map g vs = xs"
    using Cons.IH [OF v(2)] Cons.prems(2) by simp
  ultimately show ?case using v(3) by simp
qed

lemma dict_get_missing: "k \<notin> set (map fst d) \<Longrightarrow> dict_get d k = Inl KeyError"
proof -
  assume "k \<notin> set (map fst d)"
  then have "map_of d k = None" by (simp add: map_of_eq_None_iff)
  then show ?thesis by (simp add: dict_get_def)
qed

lemma dict_get_cases: "dict_get d k = Inl KeyError \<or> (\<exists>v. dict_get d k = Inr v)"
  by (cases "map_of d k") (simp_all add: dict_get_def)

lemma chr_ends_loop_missing:
  "i \<in> set is \<Longrightarrow> ''chr'' @ py_str (i + 1) \<notin> set (map fst cl) \<Longrightarrow>
   chr_ends_loop cl is acc = Inl KeyError"
proof (induction "is" arbitrary: acc)
  case Nil
  then show ?case by simp
next
  case (Cons a "is")
  show ?case
  proof (cases "a = i")
    case True
    have "dict_get cl (''chr'' @ py_str (i + 1)) = Inl KeyError"
      by (rule dict_get_missing [OF Cons.prems(2)])
    then show ?thesis unfolding True chr_ends_loop.simps by simp
  next
    case False
    then have m: "i \<in> set is" using Cons.prems(1) by simp
    from dict_get_cases [of cl "''chr'' @ py_str (a + 1)"]
    show ?thesis
    proof
      assume "dict_get cl (''chr'' @ py_str (a + 1)) = Inl KeyError"
      then show ?thesis unfolding chr_ends_loop.simps by simp
    next
      assume "\<exists>v. dict_get cl (''chr'' @ py_str (a + 1)) = Inr v"
      then obtain v where "dict_get cl (''chr'' @ py_str (a + 1)) = Inr v" by blast
      then show ?thesis
        unfolding chr_ends_loop.simps using Cons.IH [OF m Cons.prems(2)] by simp
    qed
  qed
qed

lemma chrlengths_keys:
  assumes "chrlengths fr bbc = Inr cl" and "''#CHR'' \<in> set (columns bbc)"
  shows "map fst cl = sort (remdups (map (cell_str fr) (column_at bbc (first_index (columns bbc) ''#CHR''))))"
proof -
  let ?j = "first_index (columns bbc) ''#CHR''"
  let ?names = "sort (remdups (map (cell_str fr) (column_at bbc ?j)))"
  define f where "f = (\<lambda>c. case col_index bbc ''END'' of
                         None \<Rightarrow> Inl AttributeError
                       | Some e \<Rightarrow>
                          (case sequence_err
                                  (map (\<lambda>r. cell_num (r ! e))
                                       (filter (\<lambda>r. cell_str fr (r ! ?j) = c) (rows bbc))) of
                             Inl err \<Rightarrow> Inl err
                           | Inr ends \<Rightarrow> Inr (c, max_list ends)))"
  have ci: "col_index bbc ''#CHR'' = Some ?j" using assms(2) by (simp add: col_index_def)
  have s: "sequence_err (map f ?names) = Inr cl"
    using assms(1) unfolding chrlengths_def ci option.case f_def .
  have k: "fst y = c" if "f c = Inr y" for c y
  proof (cases "col_index bbc ''END''")
    case None
    then show ?thesis using that by (simp add: f_def)
  next
    case (Some e)
    show ?thesis
    proof (cases "sequence_err (map (\<lambda>r. cell_num (r ! e))
                                       (filter (\<lambda>r. cell_str fr (r ! ?j) = c) (rows bbc)))")
      case (Inl err)
      then show ?thesis using that Some by (simp add: f_def)
    next
      case (Inr ends)
      then show ?thesis using that Some by (auto simp: f_def)
    qed
  qed
  show ?thesis by (rule sequence_err_keys [OF s]) (rule k)
qed

lemma columns_set_col: "columns (set_col df j vs) = columns df"
  by (simp add: set_col_def)

lemma normalize_chr_columns:
  assumes "normalize_chr fr bbc0 = Inr bbc"
  shows "''#CHR'' \<in> set (columns bbc) \<and> columns bbc = columns bbc0"
proof (cases "''#CHR'' \<in> set (columns bbc0)")
  case False
  then have "col_index bbc0 ''#CHR'' = None" by (simp add: col_index_def)
  then have "normalize_chr fr bbc0 = Inl (ValueError ''Input table is malformed (missing #CHR column)'')"
    unfolding normalize_chr_def by simp
  with assms show ?thesis by simp
next
  case True
  define j where "j = first_index (columns bbc0) ''#CHR''"
  have ci: "col_index bbc0 ''#CHR'' = Some j" using True by (simp add: col_index_def j_def)
  have "bbc = bbc0 \<or> (\<exists>vs. bbc = set_col bbc0 j vs)"
    using assms unfolding normalize_chr_def ci option.case Let_def
    by (metis Inl_Inr_False sum.inject(2))
  then have "columns bbc = columns bbc0" by (auto simp: columns_set_col)
  with True show ?thesis by simp
qed


theorem chr_notation_handling_witness:
  "''#CHR'' \<in> set (columns bbc_two) \<and> wf_frame bbc_two \<and>
   normalize_chr (\<lambda>x. ''nan'') bbc_two =
     Inr \<lparr>columns = [''#CHR'', ''START'', ''END''],
          rows = [[CStr ''chr1'', CInt 0, CInt 10], [CStr ''chr2'', CInt 0, CInt 20]]\<rparr>"
proof -
  have e: "normalize_chr (\<lambda>x. ''nan'') bbc_two =
     Inr \<lparr>columns = [''#CHR'', ''START'', ''END''],
          rows = [[CStr ''chr1'', CInt 0, CInt 10], [CStr ''chr2'', CInt 0, CInt 20]]\<rparr>"
    by code_simp
  have w: "''#CHR'' \<in> set (columns bbc_two) \<and> wf_frame bbc_two"
    by (simp add: bbc_two_def wf_frame_def)
  from chr_notation_handling [where bbc = bbc_two and float_repr = "\<lambda>x. ''nan''"] e w show ?thesis by simp
qed

text \<open>
  Claim C10. If, after the normalisation of the names, some chromosome among chr1..chr22
  has no bin in the table, the entry point fails while it builds the axis: either the
  per-chromosome maxima of \<^verbatim>\<open>END\<close> cannot be computed, or the loop over chromosomes
  1..22 raises KeyError on the missing name. No mapping and no plot is produced.
\<close>

theorem missing_chromosome_fails:
  assumes "normalize_chr fr bbc0 = Inr bbc"
      and "1 \<le> i" and "i \<le> 22"
      and "''chr'' @ py_str i \<notin>
             set (map (cell_str fr) (column_at bbc (first_index (columns bbc) ''#CHR'')))"
  shows "(\<exists>e. chrlengths fr bbc = Inl e \<and> generate_1D2D_plots pv fr bbc0 = Inl e) \<or>
         (\<exists>cl. chrlengths fr bbc = Inr cl \<and> chr_ends_loop cl [0..<22] [0] = Inl KeyError \<and>
               generate_1D2D_plots pv fr bbc0 = Inl KeyError)"
proof (cases "chrlengths fr bbc")
  case (Inl e)
  then show ?thesis using assms(1) by (simp add: generate_1D2D_plots_def)
next
  case (Inr cl)
  have c: "''#CHR'' \<in> set (columns bbc)"
    by (rule conjunct1 [OF normalize_chr_columns [OF assms(1)]])
  have "set (map fst cl) = set (map (cell_str fr) (column_at bbc (first_index (columns bbc) ''#CHR'')))"
    unfolding chrlengths_keys [OF Inr c] by simp
  then have "''chr'' @ py_str ((i - 1) + 1) \<notin> set (map fst cl)"
    using assms(2,4) by simp
  moreover have "i - 1 \<in> set [0..<22]" using assms(2,3) by auto
  ultimately have "chr_ends_loop cl [0..<22] [0] = Inl KeyError"
    by (rule chr_ends_loop_missing [rotated])
  then show ?thesis using Inr assms(1) by (simp add: generate_1D2D_plots_def)
qed

theorem missing_chromosome_fails_witness:
  "normalize_chr (\<lambda>x. ''nan'') bbc_chr1 = Inr bbc_chr1 \<and> (1::nat) \<le> 2 \<and> (2::nat) \<le> 22 \<and>
   ''chr'' @ py_str 2 \<notin>
      set (map (cell_str (\<lambda>x. ''nan'')) (column_at bbc_chr1 (first_index (columns bbc_chr1) ''#CHR''))) \<and>
   chrlengths (\<lambda>x. ''nan'') bbc_chr1 = Inr [(''chr1'', 10)] \<and>
   generate_1D2D_plots Pandas1 (\<lambda>x. ''nan'') bbc_chr1 = Inl KeyError"
proof -
  have n: "normalize_chr (\<lambda>x. ''nan'') bbc_chr1 = Inr bbc_chr1"
    by code_simp
  have m: "''chr'' @ py_str 2 \<notin>
      set (map (cell_str (\<lambda>x. ''nan'')) (column_at bbc_chr1 (first_index (columns bbc_chr1) ''#CHR'')))"
    by code_simp
  have c: "chrlengths (\<lambda>x. ''nan'') bbc_chr1 = Inr [(''chr1'', 10)]"
    by code_simp
  from missing_chromosome_fails [OF n _ _ m] n m c show ?thesis by simp
qed

subsection \<open>The state-index mapping of the entry point\<close>

text \<open>
  Claim C1. The entry point hands \<^verbatim>\<open>reindex\<close> the group keys of the table, each distinct
  state once, so every count is 1 and the ranks follow the sorted order of the state
  strings, not the number of bins: on a table with 21 bins in state \<^verbatim>\<open>2|2\<close> and one bin
  in state \<^verbatim>\<open>1|1\<close>, rank 1 goes to \<^verbatim>\<open>1|1\<close>, whether the release of pandas yields the
  keys bare or as tuples of length 1.
\<close>

theorem mapping_ignores_bin_counts:
  "(case generate_1D2D_plots Pandas1 (\<lambda>x. ''nan'') bbc_prevalence of
      Inl e \<Rightarrow> None
    | Inr (bbc, chr_ends, n_clones, mapping) \<Rightarrow> Some (n_clones, mapping))
   = Some (1, [(Bare (CStr ''1|1''), 1), (Bare (CStr ''2|2''), 2)]) \<and>
   (case generate_1D2D_plots Pandas2 (\<lambda>x. ''nan'') bbc_prevalence of
      Inl e \<Rightarrow> None
    | Inr (bbc, chr_ends, n_clones, mapping) \<Rightarrow> Some (n_clones, mapping))
   = Some (1, [(Tuple [CStr ''1|1''], 1), (Tuple [CStr ''2|2''], 2)])"
  by code_simp

subsection \<open>The mapping lookups of \<^verbatim>\<open>plot_clusters\<close>\<close>

text \<open>
  Claim C7. With a pandas release from 2.0 on, the keys of the mapping of a table with one
  tumor clone are tuples of length 1, while \<^verbatim>\<open>plot_clusters\<close> looks the bins up by the
  bare state string: on the table with one bin in state \<^verbatim>\<open>1|1\<close> and 21 bins in state
  \<^verbatim>\<open>2|2\<close> the entry point builds the mapping and the first lookup of a bin raises
  KeyError. With a release before 2.0 the keys of the same table are the bare strings and
  every lookup of a bin and of a centroid finds its key.
\<close>

theorem single_clone_lookup_fails:
  "(case generate_1D2D_plots Pandas2 (\<lambda>x. ''nan'') bbc_prevalence of
      Inl e \<Rightarrow> None
    | Inr (bbc, chr_ends, n_clones, mapping) \<Rightarrow>
        Some (n_clones, mapping, plot_clusters Pandas2 balanced_states bbc mapping))
   = Some (1, [(Tuple [CStr ''1|1''], 1), (Tuple [CStr ''2|2''], 2)], Inl KeyError) \<and>
   (case generate_1D2D_plots Pandas1 (\<lambda>x. ''nan'') bbc_prevalence of
      Inl e \<Rightarrow> None
    | Inr (bbc, chr_ends, n_clones, mapping) \<Rightarrow>
        Some (n_clones, mapping, isl (plot_clusters Pandas1 balanced_states bbc mapping)))
   = Some (1, [(Bare (CStr ''1|1''), 1), (Bare (CStr ''2|2''), 2)], False)"
  by code_simp


subsection \<open>The gamma estimate on typed tables\<close>

lemma zip_map_same: "zip (map f xs) (map g xs) = map (\<lambda>x. (f x, g x)) xs"
  by (induction xs) auto

lemma fold_add_columns:
  fixes f :: "'i \<Rightarrow> 'r \<Rightarrow> real"
  shows "fold (\<lambda>t acc. map (\<lambda>(a, b). a + b) (zip acc t)) (map (\<lambda>i. map (f i) rs) js) (map g rs)
         = map (\<lambda>r. g r + sum_list (map (\<lambda>i. f i r) js)) rs"
proof (induction js arbitrary: g)
  case Nil
  show ?case by simp
next
  case (Cons j js)
  have "map (\<lambda>(a, b). a + b) (zip (map g rs) (map (f j) rs)) = map (\<lambda>r. g r + f j r) rs"
    by (simp add: zip_map_same)
  then show ?case using Cons.IH [of "\<lambda>r. g r + f j r"] by (simp add: add.assoc)
qed

lemma filter_nth_upt: "map ((!) xs) (filter (\<lambda>i. P (xs ! i)) [0..<length xs]) = filter P xs"
proof -
  have "filter P xs = filter P (map ((!) xs) [0..<length xs])" by (simp only: map_nth)
  also have "\<dots> = map ((!) xs) (filter (P \<circ> (!) xs) [0..<length xs])" by (simp only: filter_map)
  finally show ?thesis by (simp add: comp_def)
qed

lemma fold_max_mem: "fold max xs (x :: real) \<in> set (x # xs)"
proof (induction xs arbitrary: x)
  case Nil
  show ?case by simp
next
  case (Cons y ys)
  from Cons.IH [of "max y x"] show ?case by (auto simp: max_def split: if_splits)
qed

lemma max_list_mem: "xs \<noteq> [] \<Longrightarrow> max_list xs \<in> set xs"
  using fold_max_mem by (cases xs) auto



lemma py_max_key_nonempty:
  "opts \<noteq> [] \<Longrightarrow> py_max_key key opts = Inr (max_key_loop key (hd opts) (tl opts))"
  by (cases opts) (simp_all add: py_max_key_def)

lemma counter_key:
  "(\<lambda>x. case map_of (Counter cns) (CStr x) of None \<Rightarrow> 0 | Some c \<Rightarrow> c) = (\<lambda>x. count_list cns (CStr x))"
  by (auto simp: map_of_Counter fun_eq_iff count_list_0_iff)

lemma valid_state_total:
  "valid_state c \<Longrightarrow> (case cell_text c of Inl e \<Rightarrow> Inl e | Inr s \<Rightarrow> cn2total s) = Inr (cell_total c)"
  by (auto simp: valid_state_def cell_total_def split: sum.splits)

lemma is_num_real: "is_num c \<Longrightarrow> cell_num c = Inr (cell_real c)"
  by (auto simp: is_num_def cell_real_def split: sum.splits)

lemma ucn_layout_n: "ucn_layout n bbc \<Longrightarrow> 0 < n"
  by (simp add: ucn_layout_def)

lemma ucn_layout_rows: "ucn_layout n bbc \<Longrightarrow> rows bbc \<noteq> []"
  by (simp add: ucn_layout_def)

lemma ucn_layout_length: "ucn_layout n bbc \<Longrightarrow> length (columns bbc) = 13 + 2 * n"
  by (simp add: ucn_layout_def)

lemma ucn_layout_RD: "ucn_layout n bbc \<Longrightarrow> col_index bbc ''RD'' = Some 4"
  by (simp add: ucn_layout_def)

lemma ucn_layout_cn:
  "ucn_layout n bbc \<Longrightarrow> i < n \<Longrightarrow> col_index bbc (''cn_clone'' @ py_str (Suc i)) = Some (13 + 2 * i)"
  unfolding ucn_layout_def list_all_iff by simp

lemma ucn_layout_u:
  "ucn_layout n bbc \<Longrightarrow> i < n \<Longrightarrow> col_index bbc (''u_clone'' @ py_str (Suc i)) = Some (14 + 2 * i)"
  unfolding ucn_layout_def list_all_iff by simp

lemma ucn_layout_typed: "ucn_layout n bbc \<Longrightarrow> r \<in> set (rows bbc) \<Longrightarrow> typed_row n r"
  unfolding ucn_layout_def list_all_iff by simp

lemma typed_row_rd: "typed_row n r \<Longrightarrow> is_num (r ! 4)"
  by (simp add: typed_row_def)

lemma typed_row_cells:
  assumes "typed_row n r" and "i \<le> n"
  shows "valid_state (r ! (11 + 2 * i)) \<and> is_num (r ! (12 + 2 * i))"
proof -
  from assms(1) have a: "\<forall>i\<in>set [0..<Suc n]. valid_state (r ! (11 + 2 * i)) \<and> is_num (r ! (12 + 2 * i))"
    unfolding typed_row_def list_all_iff by blast
  from assms(2) have "i \<in> set [0..<Suc n]" by auto
  with a show ?thesis by blast
qed

lemma typed_row_state: "typed_row n r \<Longrightarrow> i \<le> n \<Longrightarrow> valid_state (r ! (11 + 2 * i))"
  using typed_row_cells by blast

lemma typed_row_prop: "typed_row n r \<Longrightarrow> i \<le> n \<Longrightarrow> is_num (r ! (12 + 2 * i))"
  using typed_row_cells by blast

lemma n_clones_gamma_layout: "ucn_layout n bbc \<Longrightarrow> n_clones_gamma bbc = int n"
  by (simp add: n_clones_gamma_def Let_def ucn_layout_length)

lemma fractional_factors_layout:
  assumes l: "ucn_layout n bbc" and i: "i \<le> n"
  shows "fractional_factors bbc i =
         Inr (map (\<lambda>r. cell_total (r ! (11 + 2 * i))) (rows bbc), column_at bbc (12 + 2 * i))"
proof -
  have a: "iloc_col bbc (11 + 2 * i) = Inr (column_at bbc (11 + 2 * i))"
    using i by (simp add: iloc_col_def ucn_layout_length [OF l])
  have b: "iloc_col bbc (12 + 2 * i) = Inr (column_at bbc (12 + 2 * i))"
    using i by (simp add: iloc_col_def ucn_layout_length [OF l])
  have "sequence_err (map (\<lambda>r. case cell_text (r ! (11 + 2 * i)) of Inl e \<Rightarrow> Inl e | Inr s \<Rightarrow> cn2total s)
            (rows bbc)) = Inr (map (\<lambda>r. cell_total (r ! (11 + 2 * i))) (rows bbc))"
    by (rule sequence_err_all_Inr)
       (rule valid_state_total [OF typed_row_state [OF ucn_layout_typed [OF l] i]])
  then have c: "sequence_err (map (\<lambda>c. case cell_text c of Inl e \<Rightarrow> Inl e | Inr s \<Rightarrow> cn2total s)
            (column_at bbc (11 + 2 * i))) = Inr (map (\<lambda>r. cell_total (r ! (11 + 2 * i))) (rows bbc))"
    by (simp only: column_at_def map_map comp_def)
  show ?thesis
    by (simp only: fractional_factors_def a b c sum.case)
qed

lemma fractional_term_layout:
  assumes l: "ucn_layout n bbc" and i: "i \<le> n"
  shows "fractional_term (map (\<lambda>r. cell_total (r ! (11 + 2 * i))) (rows bbc), column_at bbc (12 + 2 * i)) =
         Inr (map (\<lambda>r. real_of_int (cell_total (r ! (11 + 2 * i))) * cell_real (r ! (12 + 2 * i)))
                (rows bbc))"
proof -
  have "sequence_err (map (\<lambda>r. cell_num (r ! (12 + 2 * i))) (rows bbc))
        = Inr (map (\<lambda>r. cell_real (r ! (12 + 2 * i))) (rows bbc))"
    by (rule sequence_err_all_Inr)
       (rule is_num_real [OF typed_row_prop [OF ucn_layout_typed [OF l] i]])
  then have d: "sequence_err (map cell_num (column_at bbc (12 + 2 * i)))
        = Inr (map (\<lambda>r. cell_real (r ! (12 + 2 * i))) (rows bbc))"
    by (simp only: column_at_def map_map comp_def)
  show ?thesis
    by (simp only: fractional_term_def fst_conv snd_conv d sum.case zip_map_same map_map comp_def
          prod.case)
qed

lemma fractional_cn_layout:
  assumes l: "ucn_layout n bbc"
  shows "fractional_cn bbc (int n) = Inr (map (fcn_of n) (rows bbc))"
proof -
  let ?f = "\<lambda>i r. real_of_int (cell_total (r ! (11 + 2 * i))) * cell_real (r ! (12 + 2 * i))"
  let ?p = "\<lambda>i. (map (\<lambda>r. cell_total (r ! (11 + 2 * i))) (rows bbc), column_at bbc (12 + 2 * i))"
  have n: "nat (int n + 1) = Suc n" by simp
  have a: "sequence_err (map (fractional_factors bbc) [0..<Suc n]) = Inr (map ?p [0..<Suc n])"
  proof (rule sequence_err_all_Inr)
    fix i assume "i \<in> set [0..<Suc n]"
    then have "i \<le> n" by auto
    then show "fractional_factors bbc i = Inr (?p i)"
      by (rule fractional_factors_layout [OF l])
  qed
  have "sequence_err (map (\<lambda>i. fractional_term (?p i)) [0..<Suc n])
        = Inr (map (\<lambda>i. map (?f i) (rows bbc)) [0..<Suc n])"
  proof (rule sequence_err_all_Inr)
    fix i assume "i \<in> set [0..<Suc n]"
    then have "i \<le> n" by auto
    then show "fractional_term (?p i) = Inr (map (?f i) (rows bbc))"
      by (rule fractional_term_layout [OF l])
  qed
  then have b: "sequence_err (map fractional_term (map ?p [0..<Suc n]))
        = Inr (map (\<lambda>i. map (?f i) (rows bbc)) [0..<Suc n])"
    by (simp only: map_map comp_def)
  have "fractional_cn bbc (int n)
        = Inr (fold (\<lambda>t acc. map (\<lambda>(a, b). a + b) (zip acc t))
                 (map (\<lambda>i. map (?f i) (rows bbc)) [0..<Suc n]) (map (\<lambda>r. 0) (rows bbc)))"
    by (simp only: fractional_cn_def n a b sum.case map_replicate_const)
  also have "\<dots> = Inr (map (\<lambda>r. 0 + sum_list (map (\<lambda>i. ?f i r) [0..<Suc n])) (rows bbc))"
    by (simp only: fold_add_columns)
  finally show ?thesis by (simp add: fcn_of_def)
qed

lemma dominant_clone_less:
  assumes "0 < n"
  shows "dominant_clone n bbc < n"
proof -
  define us where "us = map (\<lambda>i. cell_real (hd (rows bbc) ! (14 + 2 * i))) [0..<n]"
  have "us \<noteq> []" using assms by (simp add: us_def)
  from first_index_less [OF max_list_mem [OF this]] have "first_index us (max_list us) < n"
    by (simp add: us_def)
  then show ?thesis by (simp add: dominant_clone_def Let_def us_def)
qed

lemma largest_clone_layout:
  assumes l: "ucn_layout n bbc"
  shows "largest_clone bbc (int n) = Inr (dominant_clone n bbc)"
proof -
  obtain r rs where rows: "rows bbc = r # rs" using ucn_layout_rows [OF l] by (cases "rows bbc") auto
  have r: "typed_row n r" using ucn_layout_typed [OF l, of r] rows by simp
  have fc: "first_cell bbc (''u_clone'' @ py_str (i + 1)) = Inr (r ! (14 + 2 * i))" if "i < n" for i
    using ucn_layout_u [OF l that] by (simp add: first_cell_def get_col_def column_at_def rows)
  have a: "sequence_err (map (\<lambda>i. first_cell bbc (''u_clone'' @ py_str (i + 1))) [0..<n])
           = Inr (map (\<lambda>i. r ! (14 + 2 * i)) [0..<n])"
  proof (rule sequence_err_all_Inr)
    fix i assume "i \<in> set [0..<n]"
    then have "i < n" by simp
    then show "first_cell bbc (''u_clone'' @ py_str (i + 1)) = Inr (r ! (14 + 2 * i))" by (rule fc)
  qed
  have num: "cell_num (r ! (14 + 2 * i)) = Inr (cell_real (r ! (14 + 2 * i)))" if "i < n" for i
  proof -
    have e: "12 + 2 * Suc i = 14 + 2 * i" by simp
    from that have "Suc i \<le> n" by simp
    from is_num_real [OF typed_row_prop [OF r this]] show ?thesis unfolding e .
  qed
  have "sequence_err (map (\<lambda>i. cell_num (r ! (14 + 2 * i))) [0..<n])
           = Inr (map (\<lambda>i. cell_real (r ! (14 + 2 * i))) [0..<n])"
  proof (rule sequence_err_all_Inr)
    fix i assume "i \<in> set [0..<n]"
    then have "i < n" by simp
    then show "cell_num (r ! (14 + 2 * i)) = Inr (cell_real (r ! (14 + 2 * i)))" by (rule num)
  qed
  then have b: "sequence_err (map cell_num (map (\<lambda>i. r ! (14 + 2 * i)) [0..<n]))
           = Inr (map (\<lambda>i. cell_real (r ! (14 + 2 * i))) [0..<n])"
    by (simp only: map_map comp_def)
  have ne: "map (\<lambda>i. cell_real (r ! (14 + 2 * i))) [0..<n] \<noteq> []"
    using ucn_layout_n [OF l] by simp
  have n: "nat (int n) = n" by simp
  show ?thesis
    by (simp only: largest_clone_def n a b sum.case np_argmax_def ne if_False
          dominant_clone_def Let_def rows list.sel)
qed

lemma is_balanced_bin_layout:
  assumes l: "ucn_layout n bbc" and i: "i < length (rows bbc)"
  shows "is_balanced_bin bbc (int n) c i = Inr (balanced_row n c (rows bbc ! i))"
proof -
  have r: "typed_row n (rows bbc ! i)" using ucn_layout_typed [OF l] i by simp
  have "sequence_err (map (\<lambda>j. cell_at bbc (''cn_clone'' @ py_str (j + 1)) i) [0..<n])
        = Inr (map (\<lambda>j. rows bbc ! i ! (13 + 2 * j)) [0..<n])"
  proof (rule sequence_err_all_Inr)
    fix j assume "j \<in> set [0..<n]"
    then have "j < n" by simp
    from ucn_layout_cn [OF l this]
    show "cell_at bbc (''cn_clone'' @ py_str (j + 1)) i = Inr (rows bbc ! i ! (13 + 2 * j))"
      by (simp add: cell_at_def)
  qed
  then have a: "sequence_err (map (\<lambda>j. cell_at bbc (''cn_clone'' @ py_str (j + 1)) i) [0..<nat (int n)])
        = Inr (map (\<lambda>j. rows bbc ! i ! (13 + 2 * j)) [0..<n])"
    by simp
  have b: "cell_at bbc ''RD'' i = Inr (rows bbc ! i ! 4)"
    by (simp add: cell_at_def ucn_layout_RD [OF l])
  have c: "cell_num (rows bbc ! i ! 4) = Inr (rd_of (rows bbc ! i))"
    using is_num_real [OF typed_row_rd [OF r]] by (simp add: rd_of_def)
  have d: "list_all (\<lambda>c'. c' = CStr c) (map (\<lambda>j. rows bbc ! i ! (13 + 2 * j)) [0..<n])
           = list_all (\<lambda>j. rows bbc ! i ! (13 + 2 * j) = CStr c) [0..<n]"
    by (simp add: list_all_iff)
  show ?thesis
    unfolding is_balanced_bin_def a b c d sum.case balanced_row_def by simp
qed

lemma balanced_idx_layout:
  assumes l: "ucn_layout n bbc"
  shows "balanced_idx bbc (int n) c
         = Inr (filter (\<lambda>i. balanced_row n c (rows bbc ! i)) [0..<length (rows bbc)])"
proof -
  let ?bs = "map (\<lambda>i. balanced_row n c (rows bbc ! i)) [0..<length (rows bbc)]"
  have a: "sequence_err (map (is_balanced_bin bbc (int n) c) [0..<length (rows bbc)]) = Inr ?bs"
  proof (rule sequence_err_all_Inr)
    fix i assume "i \<in> set [0..<length (rows bbc)]"
    then have "i < length (rows bbc)" by simp
    then show "is_balanced_bin bbc (int n) c i = Inr (balanced_row n c (rows bbc ! i))"
      by (rule is_balanced_bin_layout [OF l])
  qed
  have b: "filter (\<lambda>i. ?bs ! i) [0..<length (rows bbc)]
           = filter (\<lambda>i. balanced_row n c (rows bbc ! i)) [0..<length (rows bbc)]"
    by (rule filter_cong) simp_all
  show ?thesis unfolding balanced_idx_def a sum.case b ..
qed

lemma gamma_mean_layout:
  assumes l: "ucn_layout n bbc"
  shows "gamma_mean bbc (map (fcn_of n) (rows bbc))
           (filter (\<lambda>i. P (rows bbc ! i)) [0..<length (rows bbc)])
         = Inr (gamma_of n (filter P (rows bbc)))"
proof -
  let ?idx = "filter (\<lambda>i. P (rows bbc ! i)) [0..<length (rows bbc)]"
  let ?h = "\<lambda>r. np_div (fcn_of n r) (rd_of r)"
  have lt: "i < length (rows bbc)" if "i \<in> set ?idx" for i using that by simp
  have "cell_num (rows bbc ! i ! 4) = Inr (rd_of (rows bbc ! i))" if "i \<in> set ?idx" for i
    using is_num_real [OF typed_row_rd [OF ucn_layout_typed [OF l]], of "rows bbc ! i"] lt [OF that]
    by (simp add: rd_of_def)
  then have a: "sequence_err (map (\<lambda>i. cell_num (rows bbc ! i ! 4)) ?idx)
                = Inr (map (\<lambda>i. rd_of (rows bbc ! i)) ?idx)"
    by (rule sequence_err_all_Inr)
  have "map (\<lambda>(f, rd). np_div f rd)
          (zip (map (\<lambda>i. map (fcn_of n) (rows bbc) ! i) ?idx) (map (\<lambda>i. rd_of (rows bbc ! i)) ?idx))
        = map (\<lambda>i. ?h (rows bbc ! i)) ?idx"
    unfolding zip_map_same map_map comp_def prod.case
  proof (rule map_cong [OF refl])
    fix i assume "i \<in> set ?idx"
    from lt [OF this]
    show "np_div (map (fcn_of n) (rows bbc) ! i) (rd_of (rows bbc ! i)) = ?h (rows bbc ! i)"
      by simp
  qed
  also have "\<dots> = map ?h (map ((!) (rows bbc)) ?idx)" by (simp add: comp_def)
  also have "\<dots> = map ?h (filter P (rows bbc))" by (simp only: filter_nth_upt)
  finally have b: "map (\<lambda>(f, rd). np_div f rd)
          (zip (map (\<lambda>i. map (fcn_of n) (rows bbc) ! i) ?idx) (map (\<lambda>i. rd_of (rows bbc ! i)) ?idx))
        = map ?h (filter P (rows bbc))" .
  show ?thesis
    unfolding gamma_mean_def ucn_layout_RD [OF l] option.case a sum.case b gamma_of_def ..
qed

lemma balanced_idx_empty:
  "filter (\<lambda>i. balanced_row n c (rs ! i)) [0..<length rs] = [] \<longleftrightarrow> balanced_bins n c rs = []"
proof -
  have "map ((!) rs) (filter (\<lambda>i. balanced_row n c (rs ! i)) [0..<length rs]) = balanced_bins n c rs"
    unfolding balanced_bins_def by (rule filter_nth_upt)
  then show ?thesis by (metis map_is_Nil_conv)
qed

lemma compute_gamma_layout:
  assumes l: "ucn_layout n bbc" and o: "2 \<le> length opts"
  shows "compute_gamma opts bbc =
         Inr (int n, gamma_of n (balanced_bins n
               (if balanced_bins n (first_candidate opts n bbc) (rows bbc) \<noteq> []
                then first_candidate opts n bbc else second_candidate opts n bbc) (rows bbc)))"
proof -
  define c1 where "c1 = first_candidate opts n bbc"
  define c2 where "c2 = second_candidate opts n bbc"
  have dl: "dominant_clone n bbc < n" by (rule dominant_clone_less [OF ucn_layout_n [OF l]])
  have col: "get_col bbc (''cn_clone'' @ py_str (dominant_clone n bbc + 1))
             = Inr (column_at bbc (13 + 2 * dominant_clone n bbc))"
    using ucn_layout_cn [OF l dl] by (simp add: get_col_def)
  have key: "(\<lambda>x. case map_of (Counter (column_at bbc (13 + 2 * dominant_clone n bbc))) (CStr x) of
                    None \<Rightarrow> 0 | Some c \<Rightarrow> c) = dominant_count n bbc"
    unfolding counter_key by (simp add: dominant_count_def fun_eq_iff)
  have ne: "opts \<noteq> []" using o by auto
  have m1: "py_max_key (dominant_count n bbc) opts = Inr c1"
    unfolding c1_def first_candidate_def by (rule py_max_key_nonempty [OF ne])
  have "length (remove1 c1 opts) \<noteq> 0" using o by (auto simp: length_remove1)
  then have ne2: "remove1 c1 opts \<noteq> []" by simp
  have m2: "py_max_key (dominant_count n bbc) (remove1 c1 opts) = Inr c2"
    unfolding c2_def second_candidate_def Let_def c1_def [symmetric]
    by (rule py_max_key_nonempty [OF ne2])
  have e: "(length (filter (\<lambda>i. balanced_row n c (rows bbc ! i)) [0..<length (rows bbc)]) = 0)
           = (balanced_bins n c (rows bbc) = [])" for c
    using balanced_idx_empty [of n c "rows bbc"] by simp
  have g: "gamma_mean bbc (map (fcn_of n) (rows bbc))
             (filter (\<lambda>i. balanced_row n c (rows bbc ! i)) [0..<length (rows bbc)])
           = Inr (gamma_of n (balanced_bins n c (rows bbc)))" for c
    unfolding balanced_bins_def by (rule gamma_mean_layout [OF l])
  have "compute_gamma opts bbc =
        Inr (int n, gamma_of n (balanced_bins n (if balanced_bins n c1 (rows bbc) \<noteq> [] then c1 else c2)
               (rows bbc)))"
    unfolding compute_gamma_def Let_def n_clones_gamma_layout [OF l] fractional_cn_layout [OF l]
      largest_clone_layout [OF l] col key sum.case m1 balanced_idx_layout [OF l] e m2 g
    by simp
  then show ?thesis unfolding c1_def c2_def .
qed



lemma max_key_loop_max:
  "max_key_loop key b xs \<in> set (b # xs) \<and>
   (\<forall>x\<in>set (b # xs). key x \<le> key (max_key_loop key b xs))"
proof (induction xs arbitrary: b)
  case Nil
  show ?case by simp
next
  case (Cons y ys)
  let ?b = "if key b < key y then y else b"
  from Cons.IH [of ?b] have m: "max_key_loop key ?b ys \<in> set (?b # ys)"
    and u: "\<And>x. x \<in> set (?b # ys) \<Longrightarrow> key x \<le> key (max_key_loop key ?b ys)" by blast+
  have "key b \<le> key ?b" "key y \<le> key ?b" by auto
  moreover have "key ?b \<le> key (max_key_loop key ?b ys)" by (rule u) simp
  ultimately have "key b \<le> key (max_key_loop key ?b ys)" "key y \<le> key (max_key_loop key ?b ys)"
    by linarith+
  moreover have "key x \<le> key (max_key_loop key ?b ys)" if "x \<in> set ys" for x
    by (rule u) (simp add: that)
  moreover from m have "max_key_loop key ?b ys \<in> set (b # y # ys)" by (auto split: if_splits)
  ultimately show ?case by auto
qed

lemma balanced_options_length:
  assumes "distinct opts" and "set opts = set balanced_states"
  shows "length opts = 4"
proof -
  have "card (set balanced_states) = 4" by (simp add: balanced_states_def)
  with assms(2) have "card (set opts) = 4" by simp
  with distinct_card [OF assms(1)] show ?thesis by simp
qed

lemma first_candidate_max:
  assumes "opts \<noteq> []"
  shows "first_candidate opts n bbc \<in> set opts \<and>
         (\<forall>x\<in>set opts. dominant_count n bbc x \<le> dominant_count n bbc (first_candidate opts n bbc))"
proof -
  from assms have "hd opts # tl opts = opts" by simp
  with max_key_loop_max [of "dominant_count n bbc" "hd opts" "tl opts"]
  show ?thesis unfolding first_candidate_def by simp
qed

lemma second_candidate_max:
  assumes "distinct opts" and "2 \<le> length opts"
  shows "second_candidate opts n bbc \<in> set opts \<and>
         second_candidate opts n bbc \<noteq> first_candidate opts n bbc \<and>
         (\<forall>x\<in>set opts. x \<noteq> first_candidate opts n bbc \<longrightarrow>
            dominant_count n bbc x \<le> dominant_count n bbc (second_candidate opts n bbc))"
proof -
  define c1 where "c1 = first_candidate opts n bbc"
  define rest where "rest = remove1 c1 opts"
  have s: "set rest = set opts - {c1}" using assms(1) by (simp add: rest_def)
  have "length rest \<noteq> 0" using assms(2) by (auto simp: rest_def length_remove1)
  then have "hd rest # tl rest = rest" by simp
  with max_key_loop_max [of "dominant_count n bbc" "hd rest" "tl rest"]
  have "max_key_loop (dominant_count n bbc) (hd rest) (tl rest) \<in> set rest \<and>
        (\<forall>x\<in>set rest. dominant_count n bbc x
            \<le> dominant_count n bbc (max_key_loop (dominant_count n bbc) (hd rest) (tl rest)))"
    by simp
  moreover have "second_candidate opts n bbc = max_key_loop (dominant_count n bbc) (hd rest) (tl rest)"
    by (simp add: second_candidate_def Let_def rest_def c1_def)
  ultimately show ?thesis unfolding s c1_def [symmetric] by auto
qed







theorem gamma_retry_counterexample:
  "compute_gamma balanced_states bbc_retry = Inr (1, NonFinite) \<and>
   balanced_bins 1 ''3|3'' (rows bbc_retry) \<noteq> []"
  by code_simp

text \<open>
  Claim C3, as amended. On a table in the standard layout the estimator never raises. Its
  first candidate is a balanced state with the most bins in the dominant clone; if some
  bin has that state in every tumor clone and a positive read depth, gamma is the mean of
  \<open>fcn / RD\<close> over these bins. Otherwise the candidate is removed and the selection is
  repeated once: gamma is the mean over the bins of the second candidate, a state with the
  most bins among the three that are left. If the second candidate has no usable bin
  either, the other two are not tried and the result is the number not-a-number.
\<close>

theorem gamma_single_retry:
  assumes "ucn_layout n bbc" and "distinct opts" and "set opts = set balanced_states"
  defines "c1 \<equiv> first_candidate opts n bbc" and "c2 \<equiv> second_candidate opts n bbc"
  shows "c1 \<in> set opts \<and> (\<forall>x\<in>set opts. dominant_count n bbc x \<le> dominant_count n bbc c1) \<and>
         c2 \<in> set opts \<and> c2 \<noteq> c1 \<and>
         (\<forall>x\<in>set opts. x \<noteq> c1 \<longrightarrow> dominant_count n bbc x \<le> dominant_count n bbc c2) \<and>
         (balanced_bins n c1 (rows bbc) \<noteq> [] \<longrightarrow>
            compute_gamma opts bbc = Inr (int n, gamma_of n (balanced_bins n c1 (rows bbc)))) \<and>
         (balanced_bins n c1 (rows bbc) = [] \<longrightarrow>
            compute_gamma opts bbc = Inr (int n, gamma_of n (balanced_bins n c2 (rows bbc)))) \<and>
         (balanced_bins n c1 (rows bbc) = [] \<and> balanced_bins n c2 (rows bbc) = [] \<longrightarrow>
            compute_gamma opts bbc = Inr (int n, NonFinite))"
proof -
  have len: "length opts = 4" by (rule balanced_options_length [OF assms(2,3)])
  then have o: "2 \<le> length opts" and ne: "opts \<noteq> []" by auto
  note a = first_candidate_max [OF ne, of n bbc, folded c1_def]
  note b = second_candidate_max [OF assms(2) o, of n bbc, folded c1_def c2_def]
  note g = compute_gamma_layout [OF assms(1) o, folded c1_def c2_def]
  have e: "gamma_of n [] = NonFinite" by (simp add: gamma_of_def np_mean_def)
  have g1: "compute_gamma opts bbc = Inr (int n, gamma_of n (balanced_bins n c1 (rows bbc)))"
    if "balanced_bins n c1 (rows bbc) \<noteq> []" using g that by simp
  have g2: "compute_gamma opts bbc = Inr (int n, gamma_of n (balanced_bins n c2 (rows bbc)))"
    if "balanced_bins n c1 (rows bbc) = []" using g that by simp
  have g3: "compute_gamma opts bbc = Inr (int n, NonFinite)"
    if "balanced_bins n c1 (rows bbc) = [] \<and> balanced_bins n c2 (rows bbc) = []"
    using g that e by simp
  from a b g1 g2 g3 show ?thesis by blast
qed

theorem gamma_single_retry_witness:
  "ucn_layout 1 bbc_rd12 \<and> ucn_layout 1 bbc_retry \<and> distinct balanced_states \<and>
   first_candidate balanced_states 1 bbc_rd12 = ''2|2'' \<and>
   balanced_bins 1 ''2|2'' (rows bbc_rd12) = rows bbc_rd12 \<and>
   compute_gamma balanced_states bbc_rd12 = Inr (1, gamma_of 1 (rows bbc_rd12)) \<and>
   first_candidate balanced_states 1 bbc_retry = ''1|1'' \<and>
   second_candidate balanced_states 1 bbc_retry = ''2|2'' \<and>
   balanced_bins 1 ''1|1'' (rows bbc_retry) = [] \<and> balanced_bins 1 ''2|2'' (rows bbc_retry) = [] \<and>
   compute_gamma balanced_states bbc_retry = Inr (1, NonFinite)"
proof -
  have l1: "ucn_layout 1 bbc_rd12" and l2: "ucn_layout 1 bbc_retry" by code_simp+
  have d: "distinct balanced_states" by code_simp
  have c1: "first_candidate balanced_states 1 bbc_rd12 = ''2|2''" by code_simp
  have b1: "balanced_bins 1 ''2|2'' (rows bbc_rd12) = rows bbc_rd12" by code_simp
  have r1: "rows bbc_rd12 \<noteq> []" by code_simp
  have c2: "first_candidate balanced_states 1 bbc_retry = ''1|1''"
    and c3: "second_candidate balanced_states 1 bbc_retry = ''2|2''" by code_simp+
  have b2: "balanced_bins 1 ''1|1'' (rows bbc_retry) = []"
    and b3: "balanced_bins 1 ''2|2'' (rows bbc_retry) = []" by code_simp+
  from gamma_single_retry [OF l1 d refl]
  have "balanced_bins 1 (first_candidate balanced_states 1 bbc_rd12) (rows bbc_rd12) \<noteq> [] \<longrightarrow>
        compute_gamma balanced_states bbc_rd12 =
          Inr (int 1, gamma_of 1 (balanced_bins 1 (first_candidate balanced_states 1 bbc_rd12)
                                    (rows bbc_rd12)))" by blast
  with c1 b1 r1
  have g1: "compute_gamma balanced_states bbc_rd12 = Inr (1, gamma_of 1 (rows bbc_rd12))" by simp
  from gamma_single_retry [OF l2 d refl]
  have "balanced_bins 1 (first_candidate balanced_states 1 bbc_retry) (rows bbc_retry) = [] \<and>
        balanced_bins 1 (second_candidate balanced_states 1 bbc_retry) (rows bbc_retry) = [] \<longrightarrow>
        compute_gamma balanced_states bbc_retry = Inr (int 1, NonFinite)" by blast
  with c2 c3 b2 b3
  have g2: "compute_gamma balanced_states bbc_retry = Inr (1, NonFinite)" by simp
  from l1 l2 d c1 b1 g1 c2 c3 b2 b3 g2 show ?thesis by blast
qed


end
